theory Spec2Isabelle
  imports
    Complex_Main
    "HOL-Library.Char_ord"
    "HOL-Library.List_Lexorder"
    "HOL-Library.Option_ord"
    "HOL-Library.Multiset"
    "HOL-Library.Log_Nat"
begin

section \<open>Python values used by app.py\<close>

text \<open>
  A Python \<open>str\<close> is modelled as a \<open>string\<close>, one \<open>char\<close> per code point below 256.
  A finite Python \<open>float\<close> is modelled by the rational number that the double denotes,
  and the three non-finite doubles are constructors of their own. Where the program
  computes a double (the quotient of \<open>AVG\<close>, the result of \<open>round\<close>), the model rounds
  the exact result to the nearest double with \<open>to_double\<close>, defined below.
\<close>

datatype py_error = TypeError | ValueError | OverflowError | AttributeError | IndexError

datatype pyfloat = Finite rat | PosInf | NegInf | NaN

text \<open>
  What \<open>request.get_json\<close> returns: \<open>JObj\<close> holds the items of the parsed \<open>dict\<close>
  (its keys are distinct), \<open>JNull\<close> is \<open>None\<close>.
\<close>

datatype json =
    JNull
  | JBool bool
  | JInt int
  | JFloat pyfloat
  | JStr string
  | JArr "json list"
  | JObj "(string \<times> json) list"

subsection \<open>\<open>str.strip\<close>, \<open>str.replace\<close>, \<open>str.join\<close>, \<open>str(int)\<close>\<close>

definition py_isspace :: "char \<Rightarrow> bool" where
  \<comment> \<open>\<open>str.isspace\<close> on the code points below 256: TAB..CR, FS..US, space, NEL, NBSP\<close>
  "py_isspace c =
     (let n = (of_char c :: nat)
      in (9 \<le> n \<and> n \<le> 13) \<or> (28 \<le> n \<and> n \<le> 32) \<or> n = 133 \<or> n = 160)"

definition py_strip :: "string \<Rightarrow> string" where
  "py_strip s = rev (dropWhile py_isspace (rev (dropWhile py_isspace s)))"

definition replace_quote :: "string \<Rightarrow> string" where
  \<comment> \<open>\<open>s.replace('"', '""')\<close>\<close>
  "replace_quote s = concat (map (\<lambda>c. if c = CHR 0x22 then [CHR 0x22, CHR 0x22] else [c]) s)"

fun join :: "string \<Rightarrow> string list \<Rightarrow> string" where
  "join sep [] = []"
| "join sep [x] = x"
| "join sep (x # y # ys) = x @ sep @ join sep (y # ys)"

definition digit_char :: "nat \<Rightarrow> char" where
  "digit_char d = ''0123456789'' ! d"

fun str_nat :: "nat \<Rightarrow> string" where
  "str_nat n = (if n < 10 then [digit_char n] else str_nat (n div 10) @ [digit_char (n mod 10)])"

declare str_nat.simps [simp del]

definition py_str :: "int \<Rightarrow> string" where
  \<comment> \<open>\<open>str(i)\<close> of an \<open>int\<close>\<close>
  "py_str i = (if i < 0 then CHR ''-'' # str_nat (nat (- i)) else str_nat (nat i))"

subsection \<open>\<open>int(x)\<close>\<close>

definition is_digit :: "char \<Rightarrow> bool" where
  "is_digit c = (c \<in> set ''0123456789'')"

definition digit_val :: "char \<Rightarrow> nat" where
  "digit_val c = of_char c - 48"

text \<open>
  \<open>int(s)\<close> of a text strips white space, reads one optional sign and then a decimal
  literal. The white space of \<open>int\<close> is not that of \<open>str.strip\<close>: of the code points below
  256 it is TAB..CR, the space, NEL and NBSP, and the separators FS..US are left in place,
  so that the conversion fails on them. A literal of more than \<open>int_max_str_digits\<close>
  digits is refused (CPython's default limit, \<open>sys.int_info.default_max_str_digits\<close>).
\<close>

definition int_isspace :: "char \<Rightarrow> bool" where
  "int_isspace c =
     (let n = (of_char c :: nat) in (9 \<le> n \<and> n \<le> 13) \<or> n = 32 \<or> n = 133 \<or> n = 160)"

definition int_strip :: "string \<Rightarrow> string" where
  "int_strip s = rev (dropWhile int_isspace (rev (dropWhile int_isspace s)))"

definition int_max_str_digits :: nat where
  "int_max_str_digits = 4300"

text \<open>
  The digits of a decimal literal after its first digit: a single underscore may stand
  between two digits.
\<close>

fun parse_digits :: "nat \<Rightarrow> string \<Rightarrow> nat option" where
  "parse_digits acc [] = Some acc"
| "parse_digits acc [c] = (if is_digit c then Some (10 * acc + digit_val c) else None)"
| "parse_digits acc (c # d # cs) =
     (if is_digit c then parse_digits (10 * acc + digit_val c) (d # cs)
      else if c = CHR ''_'' \<and> is_digit d then parse_digits (10 * acc + digit_val d) cs
      else None)"

definition parse_nat :: "string \<Rightarrow> nat option" where
  "parse_nat s =
     (if int_max_str_digits < length (filter is_digit s) then None
      else case s of
             [] \<Rightarrow> None
           | c # cs \<Rightarrow> if is_digit c then parse_digits (digit_val c) cs else None)"

definition py_int_of_str :: "string \<Rightarrow> int option" where
  \<comment> \<open>\<open>int(s)\<close> of a \<open>str\<close>, base 10; \<open>None\<close> is the \<open>ValueError\<close>\<close>
  "py_int_of_str s =
     (case int_strip s of
        [] \<Rightarrow> None
      | c # cs \<Rightarrow>
          if c = CHR ''-'' then map_option (\<lambda>n. - int n) (parse_nat cs)
          else if c = CHR ''+'' then map_option int (parse_nat cs)
          else map_option int (parse_nat (c # cs)))"

definition py_trunc :: "rat \<Rightarrow> int" where
  \<comment> \<open>\<open>int(x)\<close> of a finite \<open>float\<close>: towards zero\<close>
  "py_trunc q = (if 0 \<le> q then \<lfloor>q\<rfloor> else \<lceil>q\<rceil>)"

fun py_int :: "json \<Rightarrow> py_error + int" where
  "py_int JNull = Inl TypeError"
| "py_int (JBool b) = Inr (if b then 1 else 0)"
| "py_int (JInt n) = Inr n"
| "py_int (JFloat (Finite q)) = Inr (py_trunc q)"
| "py_int (JFloat NaN) = Inl ValueError"
| "py_int (JFloat _) = Inl OverflowError"
| "py_int (JStr s) = (case py_int_of_str s of None \<Rightarrow> Inl ValueError | Some n \<Rightarrow> Inr n)"
| "py_int (JArr _) = Inl TypeError"
| "py_int (JObj _) = Inl TypeError"

subsection \<open>Truthiness, \<open>dict.get\<close>, list indexing\<close>

fun py_truthy :: "json \<Rightarrow> bool" where
  "py_truthy JNull = False"
| "py_truthy (JBool b) = b"
| "py_truthy (JInt n) = (n \<noteq> 0)"
| "py_truthy (JFloat (Finite q)) = (q \<noteq> 0)"
| "py_truthy (JFloat _) = True"
| "py_truthy (JStr s) = (s \<noteq> [])"
| "py_truthy (JArr xs) = (xs \<noteq> [])"
| "py_truthy (JObj kvs) = (kvs \<noteq> [])"

definition dict_get :: "json \<Rightarrow> string \<Rightarrow> py_error + json" where
  \<comment> \<open>\<open>data.get(k)\<close>: \<open>None\<close> for a missing key; only a \<open>dict\<close> has the method\<close>
  "dict_get data k =
     (case data of
        JObj kvs \<Rightarrow> Inr (case map_of kvs k of None \<Rightarrow> JNull | Some v \<Rightarrow> v)
      | _ \<Rightarrow> Inl AttributeError)"

definition py_getitem :: "'a list \<Rightarrow> int \<Rightarrow> py_error + 'a" where
  \<comment> \<open>\<open>xs[i]\<close>; the indices \<open>-len(xs) .. -1\<close> read from the end\<close>
  "py_getitem xs i =
     (if 0 \<le> i \<and> i < int (length xs) then Inr (xs ! nat i)
      else if - int (length xs) \<le> i \<and> i < 0 then Inr (xs ! nat (int (length xs) + i))
      else Inl IndexError)"

section \<open>The ratings table\<close>

definition ENTRANTS :: "string list" where
  "ENTRANTS = [''Javier'', ''Lindsay'', ''Yesenia'', ''Bryan'', ''Viviana'', ''Bernie'',
     ''Rogelio'', ''Daniella'', ''Colleen'', ''Justin'', ''Paige'', ''Nic'', ''Martha'']"

text \<open>
  One row of \<open>ratings\<close>. \<open>judge\<close> and \<open>device_id\<close> are nullable \<open>TEXT\<close> columns;
  \<open>created_at\<close> holds the text of \<open>CURRENT_TIMESTAMP\<close> at the insert, and SQLite orders
  it as text.
\<close>

record rating =
  row_id :: int
  entrant_index :: int
  taste :: int
  presentation :: int
  easy :: int
  judge :: "string option"
  device_id :: "string option"
  created_at :: string

text \<open>The table and the next value of its \<open>AUTOINCREMENT\<close> key.\<close>

record db =
  rows :: "rating list"
  next_id :: int

definition init_db :: db where
  "init_db = \<lparr>rows = [], next_id = 1\<rparr>"

definition conflicts :: "int \<Rightarrow> string \<Rightarrow> rating \<Rightarrow> bool" where
  \<comment> \<open>the row that an insert of \<open>(e, dev)\<close> collides with under \<open>UNIQUE (entrant_index, device_id)\<close>\<close>
  "conflicts e dev r = (entrant_index r = e \<and> device_id r = Some dev)"

definition upsert ::
  "db \<Rightarrow> string \<Rightarrow> int \<Rightarrow> int \<Rightarrow> int \<Rightarrow> int \<Rightarrow> string option \<Rightarrow> string \<Rightarrow> db" where
  \<comment> \<open>\<open>INSERT ... ON CONFLICT(entrant_index, device_id) DO UPDATE SET\<close> the three scores and the
     judge; the statement draws a key from the \<open>AUTOINCREMENT\<close> sequence on both paths\<close>
  "upsert d now e t p z j dev =
     (if \<exists>r \<in> set (rows d). conflicts e dev r
      then \<lparr>rows =
             map (\<lambda>r. if conflicts e dev r
                       then r\<lparr>taste := t, presentation := p, easy := z, judge := j\<rparr>
                       else r) (rows d),
            next_id = next_id d + 1\<rparr>
      else \<lparr>rows = rows d @
               [\<lparr>row_id = next_id d, entrant_index = e, taste = t, presentation = p,
                 easy = z, judge = j, device_id = Some dev, created_at = now\<rparr>],
            next_id = next_id d + 1\<rparr>)"

section \<open>Device identity\<close>

definition device_id_from_request :: "(string \<rightharpoonup> string) \<Rightarrow> string" where
  \<comment> \<open>\<open>request.cookies.get("device_id") or "anon"\<close>\<close>
  "device_id_from_request cookies =
     (case cookies ''device_id'' of
        None \<Rightarrow> ''anon''
      | Some v \<Rightarrow> if v = [] then ''anon'' else v)"

section \<open>\<open>POST /api/rate\<close>\<close>

datatype api_error =
    Invalid_payload       \<comment> \<open>"Invalid payload"\<close>
  | Invalid_entrant       \<comment> \<open>"Invalid entrant"\<close>
  | Scores_must_be_1_5    \<comment> \<open>"Scores must be 1-5"\<close>
  | Bad_entrant_index     \<comment> \<open>"Bad entrant index"\<close>

text \<open>\<open>{"ok": True, ...}\<close> with status 200, or \<open>{"ok": False, "error": ...}\<close> with status 400.\<close>

datatype 'a response = Ok200 'a | Error400 api_error

fun status :: "'a response \<Rightarrow> nat" where
  "status (Ok200 _) = 200"
| "status (Error400 _) = 400"

fun ok :: "'a response \<Rightarrow> bool" where
  "ok (Ok200 _) = True"
| "ok (Error400 _) = False"

definition payload :: "json option \<Rightarrow> json" where
  \<comment> \<open>\<open>request.get_json(silent=True) or {}\<close>; \<open>None\<close> is a body that is not JSON\<close>
  "payload body = (case body of None \<Rightarrow> JObj [] | Some j \<Rightarrow> if py_truthy j then j else JObj [])"

definition raising :: "'e + 'a \<Rightarrow> ('a \<Rightarrow> 'e + 'b) \<Rightarrow> 'e + 'b" where
  \<comment> \<open>sequencing of statements that may raise: the first exception ends the block\<close>
  "raising m f = (case m of Inl x \<Rightarrow> Inl x | Inr v \<Rightarrow> f v)"

definition int_field :: "json \<Rightarrow> string \<Rightarrow> py_error + int" where
  \<comment> \<open>\<open>int(data.get(k))\<close>\<close>
  "int_field data k = raising (dict_get data k) py_int"

definition judge_field :: "json \<Rightarrow> py_error + string option" where
  \<comment> \<open>\<open>(data.get("judge") or "").strip()[:50] or None\<close>\<close>
  "judge_field data =
     raising (dict_get data ''judge'') (\<lambda>v.
       if \<not> py_truthy v then Inr None
       else (case v of
               JStr s \<Rightarrow> (let j = take 50 (py_strip s) in Inr (if j = [] then None else Some j))
             | _ \<Rightarrow> Inl AttributeError))"

definition parse_rating ::
  "json \<Rightarrow> py_error + (int \<times> int \<times> int \<times> int \<times> string option)" where
  \<comment> \<open>the body of the \<open>try\<close>: the first exception leaves it\<close>
  "parse_rating data =
     raising (int_field data ''entrant_index'') (\<lambda>e.
     raising (int_field data ''taste'') (\<lambda>t.
     raising (int_field data ''presentation'') (\<lambda>p.
     raising (int_field data ''easy'') (\<lambda>z.
     raising (judge_field data) (\<lambda>j. Inr (e, t, p, z, j))))))"

definition api_rate ::
  "(string \<rightharpoonup> string) \<Rightarrow> json option \<Rightarrow> string \<Rightarrow> db \<Rightarrow> unit response \<times> db" where
  \<comment> \<open>\<open>now\<close> is \<open>CURRENT_TIMESTAMP\<close> at the request\<close>
  "api_rate cookies body now d =
     (case parse_rating (payload body) of
        Inl _ \<Rightarrow> (Error400 Invalid_payload, d)
      | Inr (e, t, p, z, j) \<Rightarrow>
          if \<not> (0 \<le> e \<and> e < int (length ENTRANTS)) then (Error400 Invalid_entrant, d)
          else if \<exists>v \<in> set [t, p, z]. v < 1 \<or> v > 5 then (Error400 Scores_must_be_1_5, d)
          else (Ok200 (), upsert d now e t p z j (device_id_from_request cookies)))"

section \<open>\<open>GET /api/my-rating\<close>\<close>

type_synonym my_rating = "int \<times> int \<times> int \<times> string option"

definition api_my_rating ::
  "(string \<rightharpoonup> string) \<Rightarrow> (string \<rightharpoonup> string) \<Rightarrow> db \<Rightarrow> my_rating option response" where
  \<comment> \<open>\<open>args\<close> is the query string; \<open>fetchone\<close> takes the first row the \<open>SELECT\<close> finds\<close>
  "api_my_rating args cookies d =
     (case py_int_of_str (case args ''entrant_index'' of None \<Rightarrow> ''-1'' | Some s \<Rightarrow> s) of
        None \<Rightarrow> Error400 Bad_entrant_index
      | Some e \<Rightarrow>
          if \<not> (0 \<le> e \<and> e < int (length ENTRANTS)) then Ok200 None
          else (case find (conflicts e (device_id_from_request cookies)) (rows d) of
                  None \<Rightarrow> Ok200 None
                | Some r \<Rightarrow> Ok200 (Some (taste r, presentation r, easy r, judge r))))"

section \<open>\<open>GET /api/leaderboard\<close>\<close>

text \<open>
  \<open>AVG\<close> divides the sum by the count in double precision. \<open>sql_avg\<close> is the exact
  quotient and \<open>sql_real\<close> the double that Python reads from the column, the one nearest
  to the quotient (sum and count are themselves doubles without error below \<open>2^53\<close>).
  \<open>ORDER BY\<close> compares the doubles; the model compares the quotients, which puts the groups
  in the same order unless two different quotients have the same double. With scores in
  1..5, as the \<open>CHECK\<close> constraints of the table have them, that takes two vote counts
  whose product exceeds \<open>2^49\<close>.
\<close>

definition sql_avg :: "int list \<Rightarrow> rat option" where
  \<comment> \<open>\<open>AVG\<close>: \<open>NULL\<close> over no rows\<close>
  "sql_avg xs = (if xs = [] then None else Some (of_int (sum_list xs) / of_nat (length xs)))"

definition group_by_entrant :: "rating list \<Rightarrow> (int \<times> rating list) list" where
  \<comment> \<open>\<open>GROUP BY entrant_index\<close>: one group per value of the column, in ascending order\<close>
  "group_by_entrant rs =
     map (\<lambda>k. (k, filter (\<lambda>r. entrant_index r = k) rs)) (remdups (sort (map entrant_index rs)))"

definition order_by_desc :: "('a \<Rightarrow> 'k::linorder) \<Rightarrow> 'a list \<Rightarrow> 'a list" where
  \<comment> \<open>\<open>ORDER BY key DESC\<close>, ties in the order of the input; \<open>NULL\<close> (\<open>None\<close>) sorts last\<close>
  "order_by_desc key xs = rev (sort_key key (rev xs))"

definition total :: "rating \<Rightarrow> int" where
  "total r = taste r + presentation r + easy r"

record aggregate =
  agg_entrant_index :: int
  agg_votes :: nat
  agg_avg_taste :: "rat option"
  agg_avg_presentation :: "rat option"
  agg_avg_easy :: "rat option"
  agg_avg_total :: "rat option"

definition leaderboard_query :: "rating list \<Rightarrow> aggregate list" where
  "leaderboard_query rs =
     order_by_desc agg_avg_total
       (map (\<lambda>(k, g). \<lparr>agg_entrant_index = k, agg_votes = length g,
                        agg_avg_taste = sql_avg (map taste g),
                        agg_avg_presentation = sql_avg (map presentation g),
                        agg_avg_easy = sql_avg (map easy g),
                        agg_avg_total = sql_avg (map total g)\<rparr>)
            (group_by_entrant rs))"

definition round_half_even :: "rat \<Rightarrow> int" where
  "round_half_even x =
     (let f = \<lfloor>x\<rfloor>; r = x - of_int f
      in if r < 1 / 2 then f else if 1 / 2 < r then f + 1 else if even f then f else f + 1)"

text \<open>
  The double nearest to a rational, a tie to the one with the even significand: \<open>exponent x\<close>
  is the \<open>e\<close> with \<open>2^e \<le> |x| < 2^(e+1)\<close>, and the doubles of that binade are the multiples
  of \<open>2^(e-52)\<close>. The range of the exponent is not bounded: the quotients and hundredths
  of this program are far from overflow and from the subnormal numbers.
\<close>

definition exponent :: "rat \<Rightarrow> int" where
  "exponent x =
     (case quotient_of \<bar>x\<bar> of
        (p, q) \<Rightarrow> let e = bitlen p - bitlen q in if 2 powi e \<le> \<bar>x\<bar> then e else e - 1)"

definition to_double :: "rat \<Rightarrow> rat" where
  "to_double x =
     (if x = 0 then 0
      else let u = 2 powi (exponent x - 52) in of_int (round_half_even (x / u)) * u)"

definition sql_real :: "rat option \<Rightarrow> rat option" where
  \<comment> \<open>the \<open>float\<close> (or \<open>None\<close>) that Python reads from a \<open>REAL\<close> column\<close>
  "sql_real a = map_option to_double a"

definition round_to_hundredth :: "rat \<Rightarrow> rat" where
  \<comment> \<open>the decimal with two places nearest to \<open>x\<close>, a tie to the even one\<close>
  "round_to_hundredth x = of_int (round_half_even (x * 100)) / 100"

definition py_round2 :: "rat \<Rightarrow> rat" where
  \<comment> \<open>\<open>round(x, 2)\<close> of a \<open>float\<close>: the double nearest to the nearest hundredth of \<open>x\<close>\<close>
  "py_round2 x = to_double (round_to_hundredth x)"

definition round2_or_0 :: "rat option \<Rightarrow> rat" where
  \<comment> \<open>\<open>round(a, 2) if a is not None else 0\<close>\<close>
  "round2_or_0 a = (case a of None \<Rightarrow> 0 | Some x \<Rightarrow> py_round2 x)"

record lb_entry =
  name :: string
  votes :: nat
  avg_taste :: rat
  avg_presentation :: rat
  avg_easy :: rat
  avg_total :: rat

fun collect :: "('a \<Rightarrow> 'e + 'b) \<Rightarrow> 'a list \<Rightarrow> 'e + 'b list" where
  \<comment> \<open>a loop that appends \<open>f x\<close> for each \<open>x\<close>; the first exception ends it\<close>
  "collect f [] = Inr []"
| "collect f (x # xs) = raising (f x) (\<lambda>y. raising (collect f xs) (\<lambda>ys. Inr (y # ys)))"

definition lb_entry_of :: "aggregate \<Rightarrow> py_error + lb_entry" where
  "lb_entry_of a =
     raising (py_getitem ENTRANTS (agg_entrant_index a)) (\<lambda>n.
       Inr \<lparr>name = n, votes = agg_votes a,
            avg_taste = round2_or_0 (sql_real (agg_avg_taste a)),
            avg_presentation = round2_or_0 (sql_real (agg_avg_presentation a)),
            avg_easy = round2_or_0 (sql_real (agg_avg_easy a)),
            avg_total = round2_or_0 (sql_real (agg_avg_total a))\<rparr>)"

definition api_leaderboard :: "db \<Rightarrow> py_error + lb_entry list" where
  "api_leaderboard d = collect lb_entry_of (leaderboard_query (rows d))"

section \<open>\<open>GET /export.csv\<close>\<close>

definition or_empty :: "string option \<Rightarrow> string" where
  \<comment> \<open>\<open>x or ""\<close>\<close>
  "or_empty x = (case x of None \<Rightarrow> [] | Some s \<Rightarrow> s)"

definition csv_header :: string where
  "csv_header =
     join '','' [''id'', ''entrant_name'', ''taste'', ''presentation'', ''easy'', ''judge'',
                ''device_id'', ''created_at''] @ [CHR 0x0A]"

definition csv_fields :: "rating \<Rightarrow> py_error + string list" where
  \<comment> \<open>the list \<open>line\<close> of one row\<close>
  "csv_fields r =
     raising (py_getitem ENTRANTS (entrant_index r)) (\<lambda>n.
       Inr [py_str (row_id r),
            [CHR 0x22] @ replace_quote n @ [CHR 0x22],
            py_str (taste r),
            py_str (presentation r),
            py_str (easy r),
            [CHR 0x22] @ replace_quote (or_empty (judge r)) @ [CHR 0x22],
            [CHR 0x22] @ or_empty (device_id r) @ [CHR 0x22],
            created_at r])"

definition csv_line :: "rating \<Rightarrow> py_error + string" where
  \<comment> \<open>\<open>",".join(line) + "\n"\<close>\<close>
  "csv_line r = raising (csv_fields r) (\<lambda>line. Inr (join '','' line @ [CHR 0x0A]))"

text \<open>
  The generator: the lines it yields, and the exception that ended it, if one did.
\<close>

fun generate_rows :: "rating list \<Rightarrow> string list \<times> py_error option" where
  "generate_rows [] = ([], None)"
| "generate_rows (r # rs) =
     (case csv_line r of
        Inl x \<Rightarrow> ([], Some x)
      | Inr l \<Rightarrow> (case generate_rows rs of (ls, x) \<Rightarrow> (l # ls, x)))"

definition generate :: "rating list \<Rightarrow> string list \<times> py_error option" where
  "generate rs = (case generate_rows rs of (ls, x) \<Rightarrow> (csv_header # ls, x))"

definition export_csv :: "db \<Rightarrow> string list \<times> py_error option" where
  \<comment> \<open>\<open>ORDER BY created_at ASC\<close>, ties in the order of the table\<close>
  "export_csv d = generate (sort_key created_at (rows d))"

section \<open>\<open>/admin\<close> and \<open>/admin/logout\<close>\<close>

definition default_admin_password :: string where
  "default_admin_password = ''MASTERCHEF2025''"

definition admin_password :: "(string \<rightharpoonup> string) \<Rightarrow> string" where
  \<comment> \<open>\<open>os.environ.get("ADMIN_PASSWORD", "MASTERCHEF2025")\<close>\<close>
  "admin_password env =
     (case env ''ADMIN_PASSWORD'' of None \<Rightarrow> default_admin_password | Some v \<Rightarrow> v)"

datatype http_method = GET | POST

text \<open>The session holds at most the key \<open>is_admin\<close>.\<close>

type_synonym session = "string \<rightharpoonup> bool"

record detailed =
  det_id :: int
  det_entrant :: string
  det_taste :: int
  det_presentation :: int
  det_easy :: int
  det_total :: int
  det_judge :: string
  det_device_id :: string
  det_created_at :: string

datatype admin_response =
    Login_page "string option"      \<comment> \<open>admin_login.html, with its error message\<close>
  | Redirect_to_admin
  | Results_page "detailed list" "(string \<times> nat \<times> rat) list"   \<comment> \<open>admin_results.html\<close>
  | Internal_error py_error

definition detailed_of :: "rating \<Rightarrow> py_error + detailed" where
  "detailed_of r =
     raising (py_getitem ENTRANTS (entrant_index r)) (\<lambda>n.
       Inr \<lparr>det_id = row_id r, det_entrant = n, det_taste = taste r,
            det_presentation = presentation r, det_easy = easy r,
            det_total = taste r + presentation r + easy r,
            det_judge = or_empty (judge r), det_device_id = or_empty (device_id r),
            det_created_at = created_at r\<rparr>)"

definition admin_leaderboard_query :: "rating list \<Rightarrow> (int \<times> nat \<times> rat option) list" where
  "admin_leaderboard_query rs =
     order_by_desc (\<lambda>(k, n, a). a)
       (map (\<lambda>(k, g). (k, length g, sql_avg (map total g))) (group_by_entrant rs))"

definition lb_data_of :: "int \<times> nat \<times> rat option \<Rightarrow> py_error + string \<times> nat \<times> rat" where
  \<comment> \<open>\<open>round(r["avg_total"] or 0, 2)\<close>\<close>
  "lb_data_of a =
     (case a of (k, n, avg) \<Rightarrow>
        raising (py_getitem ENTRANTS k) (\<lambda>nm.
          Inr (nm, n, py_round2 (case sql_real avg of None \<Rightarrow> 0 | Some x \<Rightarrow> x))))"

definition admin ::
  "string \<Rightarrow> http_method \<Rightarrow> (string \<rightharpoonup> string) \<Rightarrow> session \<Rightarrow> db \<Rightarrow> admin_response \<times> session" where
  \<comment> \<open>the first argument is \<open>ADMIN_PASSWORD\<close>; \<open>ORDER BY entrant_index, created_at\<close> is two stable sorts\<close>
  "admin pw0 method form sess d =
     (if method = POST then
        (let pw = py_strip (or_empty (form ''password''))
         in if pw = pw0 then (Redirect_to_admin, sess(''is_admin'' \<mapsto> True))
            else (Login_page (Some ''Incorrect password''), sess))
      else if sess ''is_admin'' \<noteq> Some True then (Login_page None, sess)
      else
        (case raising (collect detailed_of (sort_key entrant_index (sort_key created_at (rows d))))
                (\<lambda>det. raising (collect lb_data_of (admin_leaderboard_query (rows d)))
                (\<lambda>lb. Inr (det, lb))) of
           Inl x \<Rightarrow> (Internal_error x, sess)
         | Inr (det, lb) \<Rightarrow> (Results_page det lb, sess)))"

definition admin_logout :: "session \<Rightarrow> admin_response \<times> session" where
  \<comment> \<open>\<open>session.pop("is_admin", None)\<close>\<close>
  "admin_logout sess = (Redirect_to_admin, sess(''is_admin'' := None))"

text \<open>
  A session's requests to the two admin routes, each with the table as it is when the
  request arrives, and the session they leave behind.
\<close>

datatype admin_request = Admin http_method "string \<rightharpoonup> string" | Logout

fun handle :: "string \<Rightarrow> session \<Rightarrow> admin_request \<times> db \<Rightarrow> admin_response \<times> session" where
  "handle pw0 sess (Admin method form, d) = admin pw0 method form sess d"
| "handle pw0 sess (Logout, d) = admin_logout sess"

fun session_after :: "string \<Rightarrow> session \<Rightarrow> (admin_request \<times> db) list \<Rightarrow> session" where
  "session_after pw0 sess [] = sess"
| "session_after pw0 sess (q # qs) = session_after pw0 (snd (handle pw0 sess q)) qs"

section \<open>Invariants of the table and notions of the specification\<close>

definition sql_unique :: "rating list \<Rightarrow> bool" where
  \<comment> \<open>\<open>UNIQUE (entrant_index, device_id)\<close>: SQL compares only non-\<open>NULL\<close> device identifiers\<close>
  "sql_unique rs =
     distinct (map (\<lambda>r. (entrant_index r, device_id r)) (filter (\<lambda>r. device_id r \<noteq> None) rs))"

definition entrants_in_range :: "rating list \<Rightarrow> bool" where
  \<comment> \<open>every stored index is one that \<open>api_rate\<close> accepts\<close>
  "entrants_in_range rs =
     list_all (\<lambda>r. 0 \<le> entrant_index r \<and> entrant_index r < int (length ENTRANTS)) rs"

definition ratings_of :: "int \<Rightarrow> rating list \<Rightarrow> rating list" where
  \<comment> \<open>the stored ratings of entrant \<open>e\<close>\<close>
  "ratings_of e rs = filter (\<lambda>r. entrant_index r = e) rs"

definition mean :: "int list \<Rightarrow> rat" where
  \<comment> \<open>the arithmetic mean of a non-empty list\<close>
  "mean xs = of_int (sum_list xs) / of_nat (length xs)"

definition csv_quoted :: "string \<Rightarrow> string" where
  \<comment> \<open>a text field of the export as the specification describes it: every double quote
     doubled, and the whole between double quotes\<close>
  "csv_quoted s = [CHR 0x22] @ replace_quote s @ [CHR 0x22]"

definition nearest_hundredth :: "rat \<Rightarrow> rat \<Rightarrow> bool" where
  \<comment> \<open>\<open>h\<close> is \<open>x\<close> rounded to two decimal places: the hundredth nearest to \<open>x\<close>, and of the
     two at the same distance the even one\<close>
  "nearest_hundredth x h =
     (of_int \<lfloor>h * 100\<rfloor> = h * 100 \<and> \<bar>h - x\<bar> \<le> 1 / 200 \<and>
      (\<bar>h - x\<bar> = 1 / 200 \<longrightarrow> even \<lfloor>h * 100\<rfloor>))"

definition float_mean :: "int list \<Rightarrow> rat" where
  \<comment> \<open>the arithmetic mean in double precision\<close>
  "float_mean xs = to_double (mean xs)"

definition truncation :: "rat \<Rightarrow> int \<Rightarrow> bool" where
  \<comment> \<open>\<open>k\<close> is \<open>q\<close> truncated towards zero: the integer part of \<open>q\<close>, with its sign\<close>
  "truncation q k =
     (\<bar>of_int k\<bar> \<le> \<bar>q\<bar> \<and> \<bar>q\<bar> < \<bar>of_int k\<bar> + 1 \<and> 0 \<le> of_int k * q)"

definition data_row :: "rating \<Rightarrow> string" where
  \<comment> \<open>the line of the export for one rating: its eight columns in the order of the header,
     numbers in decimal, the three texts between double quotes\<close>
  "data_row r =
     py_str (row_id r) @ '','' @
     csv_quoted (ENTRANTS ! nat (entrant_index r)) @ '','' @
     py_str (taste r) @ '','' @ py_str (presentation r) @ '','' @ py_str (easy r) @ '','' @
     csv_quoted (or_empty (judge r)) @ '','' @
     [CHR 0x22] @ or_empty (device_id r) @ [CHR 0x22] @ '','' @
     created_at r @ [CHR 0x0A]"

definition correct_password :: "string \<Rightarrow> admin_request \<Rightarrow> bool" where
  \<comment> \<open>a \<open>POST\<close> whose password field, trimmed, is the configured password\<close>
  "correct_password pw0 q =
     (case q of
        Admin method form \<Rightarrow> method = POST \<and> py_strip (or_empty (form ''password'')) = pw0
      | Logout \<Rightarrow> False)"

definition decimal_value :: "string \<Rightarrow> nat" where
  \<comment> \<open>the number that a string of decimal digits writes\<close>
  "decimal_value s = foldl (\<lambda>a c. 10 * a + digit_val c) 0 s"

text \<open>
  The score values that are not JSON integers and still convert: a finite float, which
  converts to its truncation towards zero, and the decimal text of an integer of at most
  \<open>int_max_str_digits\<close> digits. An integer converts to itself.
\<close>

inductive lenient_score :: "json \<Rightarrow> int \<Rightarrow> bool" where
  float_score: "truncation q k \<Longrightarrow> lenient_score (JFloat (Finite q)) k"
| text_score: "length (str_nat (nat \<bar>n\<bar>)) \<le> int_max_str_digits \<Longrightarrow> lenient_score (JStr (py_str n)) n"
| int_score: "lenient_score (JInt n) n"

definition expected_entry :: "rating list \<Rightarrow> int \<Rightarrow> lb_entry" where
  \<comment> \<open>the leaderboard entry of entrant \<open>e\<close>, from the stored ratings of \<open>e\<close>\<close>
  "expected_entry rs e =
     \<lparr>name = ENTRANTS ! nat e, votes = length (ratings_of e rs),
      avg_taste = py_round2 (to_double (mean (map taste (ratings_of e rs)))),
      avg_presentation = py_round2 (to_double (mean (map presentation (ratings_of e rs)))),
      avg_easy = py_round2 (to_double (mean (map easy (ratings_of e rs)))),
      avg_total = py_round2 (to_double (mean (map total (ratings_of e rs))))\<rparr>"

text \<open>A table of five ratings by three devices, used to run the operations.\<close>

definition sample_db :: db where
  "sample_db =
     \<lparr>rows =
        [\<lparr>row_id = 1, entrant_index = 0, taste = 5, presentation = 4, easy = 3,
          judge = Some ''Ann'', device_id = Some ''d-1'', created_at = ''2025-02-09 18:00:00''\<rparr>,
         \<lparr>row_id = 2, entrant_index = 1, taste = 5, presentation = 5, easy = 5,
          judge = None, device_id = Some ''d-1'', created_at = ''2025-02-09 18:01:00''\<rparr>,
         \<lparr>row_id = 3, entrant_index = 0, taste = 4, presentation = 4, easy = 4,
          judge = None, device_id = Some ''d-2'', created_at = ''2025-02-09 18:02:00''\<rparr>,
         \<lparr>row_id = 4, entrant_index = 1, taste = 4, presentation = 5, easy = 5,
          judge = Some ''Bea'', device_id = Some ''d-2'', created_at = ''2025-02-09 18:03:00''\<rparr>,
         \<lparr>row_id = 5, entrant_index = 0, taste = 5, presentation = 5, easy = 4,
          judge = None, device_id = Some ''d-3'', created_at = ''2025-02-09 18:04:00''\<rparr>],
      next_id = 6\<rparr>"

text \<open>
  Forty ratings of the first entrant by forty devices: taste 2 from three of them and 1
  from the others, so that the mean taste is 43/40 = 1.075.
\<close>

definition tie_db :: db where
  "tie_db =
     \<lparr>rows =
        map (\<lambda>i. \<lparr>row_id = int i, entrant_index = 0, taste = (if i \<le> 3 then 2 else 1),
                    presentation = 3, easy = 3, judge = None,
                    device_id = Some (py_str (int i)), created_at = ''2025-02-09 18:00:00''\<rparr>)
          [1 ..< 41],
      next_id = 41\<rparr>"

text \<open>
  A submission that \<open>api_rate\<close> must refuse: its entrant index converts to an integer
  outside the list, or one of its scores converts to an integer outside 1..5.
\<close>

definition out_of_range :: "json \<Rightarrow> bool" where
  "out_of_range data =
     ((case int_field data ''entrant_index'' of
         Inr e \<Rightarrow> e < 0 \<or> int (length ENTRANTS) \<le> e
       | Inl _ \<Rightarrow> False) \<or>
      (\<exists>k \<in> set [''taste'', ''presentation'', ''easy''].
         case int_field data k of Inr v \<Rightarrow> v < 1 \<or> 5 < v | Inl _ \<Rightarrow> False))"

section \<open>The upsert\<close>

lemma raising_Inr_iff:
  "raising m f = Inr y \<longleftrightarrow> (\<exists>v. m = Inr v \<and> f v = Inr y)"
  by (cases m) (simp_all add: raising_def)

lemma parse_rating_Inr:
  "parse_rating data = Inr (e, t, p, z, j) \<longleftrightarrow>
     int_field data ''entrant_index'' = Inr e \<and> int_field data ''taste'' = Inr t \<and>
     int_field data ''presentation'' = Inr p \<and> int_field data ''easy'' = Inr z \<and>
     judge_field data = Inr j"
  by (auto simp: parse_rating_def raising_Inr_iff)

lemma filter_key_le_1:
  "distinct (map f xs) \<Longrightarrow> length (filter (\<lambda>x. f x = k) xs) \<le> Suc 0"
  by (induction xs) (auto simp: filter_empty_conv image_iff)

lemma conflicts_filter:
  "filter (conflicts e dev) rs =
   filter (\<lambda>r. (entrant_index r, device_id r) = (e, Some dev)) (filter (\<lambda>r. device_id r \<noteq> None) rs)"
  by (induction rs) (auto simp: conflicts_def)

lemma sql_unique_conflicts:
  "sql_unique rs \<Longrightarrow> length (filter (conflicts e dev) rs) \<le> Suc 0"
  unfolding sql_unique_def conflicts_filter by (rule filter_key_le_1)

lemma upsert_rows:
  "rows (upsert d now e t p z j dev) =
     (if \<exists>r \<in> set (rows d). conflicts e dev r
      then map (\<lambda>r. if conflicts e dev r then r\<lparr>taste := t, presentation := p, easy := z, judge := j\<rparr> else r) (rows d)
      else rows d @ [\<lparr>row_id = next_id d, entrant_index = e, taste = t, presentation = p,
                 easy = z, judge = j, device_id = Some dev, created_at = now\<rparr>])"
  by (simp add: upsert_def)

lemma filter_conflicts_update:
  "filter (conflicts e dev) (map (\<lambda>r. if conflicts e dev r then r\<lparr>taste := t, presentation := p, easy := z, judge := j\<rparr> else r) rs)
   = map (\<lambda>r. r\<lparr>taste := t, presentation := p, easy := z, judge := j\<rparr>) (filter (conflicts e dev) rs)"
  by (induction rs) (auto simp: conflicts_def)

lemma update_keeps_keys:
  "map (\<lambda>r. (entrant_index r, device_id r)) (filter (\<lambda>r. device_id r \<noteq> None)
      (map (\<lambda>r. if conflicts e dev r then r\<lparr>taste := t, presentation := p, easy := z, judge := j\<rparr> else r) rs))
   = map (\<lambda>r. (entrant_index r, device_id r)) (filter (\<lambda>r. device_id r \<noteq> None) rs)"
  by (induction rs) auto

lemma upsert_sql_unique:
  assumes "sql_unique (rows d)"
  shows "sql_unique (rows (upsert d now e t p z j dev))"
proof (cases "\<exists>r \<in> set (rows d). conflicts e dev r")
  case True
  then show ?thesis using assms
    unfolding upsert_rows sql_unique_def 
    by (simp only: if_True update_keeps_keys)
next
  case False
  then have "(e, Some dev) \<notin> (\<lambda>r. (entrant_index r, device_id r)) ` set (rows d)"
    by (auto simp: conflicts_def)
  then show ?thesis using assms False
    unfolding upsert_rows sql_unique_def by (auto)
qed

lemma upsert_pair:
  assumes "sql_unique (rows d)"
  shows "\<exists>r. filter (conflicts e dev) (rows (upsert d now e t p z j dev)) = [r] \<and>
             taste r = t \<and> presentation r = p \<and> easy r = z \<and> judge r = j \<and>
             (filter (conflicts e dev) (rows d) = [] \<longrightarrow>
                created_at r = now \<and> row_id r = next_id d) \<and>
             (\<forall>r0 rs. filter (conflicts e dev) (rows d) = r0 # rs \<longrightarrow>
                created_at r = created_at r0 \<and> row_id r = row_id r0)"
proof (cases "\<exists>r \<in> set (rows d). conflicts e dev r")
  case True
  then have "filter (conflicts e dev) (rows d) \<noteq> []"
    by (simp add: filter_empty_conv)
  moreover have "length (filter (conflicts e dev) (rows d)) \<le> Suc 0"
    using assms by (rule sql_unique_conflicts)
  ultimately obtain r0 where r0: "filter (conflicts e dev) (rows d) = [r0]"
    by (cases "filter (conflicts e dev) (rows d)") auto
  show ?thesis using True
    by (simp add: upsert_rows filter_conflicts_update r0)
next
  case False
  then have none: "filter (conflicts e dev) (rows d) = []"
    by (simp add: filter_empty_conv)
  have "rows (upsert d now e t p z j dev) = rows d @ [\<lparr>row_id = next_id d, entrant_index = e, taste = t, presentation = p,
                 easy = z, judge = j, device_id = Some dev, created_at = now\<rparr>]"
    using False by (simp only: upsert_rows if_False)
  then show ?thesis
    by (simp add: none) (simp add: conflicts_def)
qed

section \<open>Rating submission\<close>

lemmas request_defs =
  api_rate_def parse_rating_def raising_def int_field_def judge_field_def dict_get_def
  payload_def py_strip_def py_isspace_def int_strip_def int_isspace_def int_max_str_digits_def
  py_int_of_str_def parse_nat_def is_digit_def
  digit_val_def device_id_from_request_def upsert_def conflicts_def init_db_def ENTRANTS_def
  py_trunc_def

lemma api_rate_accepts:
  assumes "parse_rating (payload body) = Inr (e, t, p, z, j)"
    and "0 \<le> e" and "e < int (length ENTRANTS)"
    and "1 \<le> t \<and> t \<le> 5 \<and> 1 \<le> p \<and> p \<le> 5 \<and> 1 \<le> z \<and> z \<le> 5"
  shows "api_rate cookies body now d =
           (Ok200 (), upsert d now e t p z j (device_id_from_request cookies))"
  using assms by (auto simp: api_rate_def)

lemma api_rate_failure_keeps_db:
  "fst (api_rate cookies body now d) \<noteq> Ok200 () \<Longrightarrow> snd (api_rate cookies body now d) = d"
  by (auto simp: api_rate_def split: sum.splits prod.splits)

text \<open>
  C1. Two accepted submissions for the same entrant from the same device, made on any table
  that satisfies the uniqueness constraint, leave exactly one row for the pair. It carries
  the scores and the judge of the second submission, and the key and the creation timestamp
  that the row had after the first one, which is the time of the first request when the
  pair had no row before.
\<close>

theorem rate_twice_one_row:
  assumes "sql_unique (rows d)"
    and "parse_rating (payload b1) = Inr (e, t1, p1, z1, j1)"
    and "parse_rating (payload b2) = Inr (e, t2, p2, z2, j2)"
    and "0 \<le> e" and "e < int (length ENTRANTS)"
    and "1 \<le> t1 \<and> t1 \<le> 5 \<and> 1 \<le> p1 \<and> p1 \<le> 5 \<and> 1 \<le> z1 \<and> z1 \<le> 5"
    and "1 \<le> t2 \<and> t2 \<le> 5 \<and> 1 \<le> p2 \<and> p2 \<le> 5 \<and> 1 \<le> z2 \<and> z2 \<le> 5"
  shows "\<exists>d1 d2 r1 r2.
           api_rate cookies b1 now1 d = (Ok200 (), d1) \<and>
           api_rate cookies b2 now2 d1 = (Ok200 (), d2) \<and>
           filter (conflicts e (device_id_from_request cookies)) (rows d1) = [r1] \<and>
           filter (conflicts e (device_id_from_request cookies)) (rows d2) = [r2] \<and>
           taste r2 = t2 \<and> presentation r2 = p2 \<and> easy r2 = z2 \<and> judge r2 = j2 \<and>
           created_at r2 = created_at r1 \<and> row_id r2 = row_id r1 \<and>
           (filter (conflicts e (device_id_from_request cookies)) (rows d) = [] \<longrightarrow>
              created_at r1 = now1)"
proof -
  define dev where "dev = device_id_from_request cookies"
  define d1 where "d1 = upsert d now1 e t1 p1 z1 j1 dev"
  define d2 where "d2 = upsert d1 now2 e t2 p2 z2 j2 dev"
  have a1: "api_rate cookies b1 now1 d = (Ok200 (), d1)"
    unfolding d1_def dev_def using assms(2,4,5,6) by (rule api_rate_accepts)
  have a2: "api_rate cookies b2 now2 d1 = (Ok200 (), d2)"
    unfolding d2_def dev_def using assms(3,4,5,7) by (rule api_rate_accepts)
  have u1: "sql_unique (rows d1)"
    unfolding d1_def using assms(1) by (rule upsert_sql_unique)
  obtain r1 where r1: "filter (conflicts e dev) (rows d1) = [r1]"
    and first: "filter (conflicts e dev) (rows d) = [] \<longrightarrow> created_at r1 = now1"
    using upsert_pair [OF assms(1), of e dev now1 t1 p1 z1 j1]
    unfolding d1_def by blast
  obtain r2 where r2: "filter (conflicts e dev) (rows d2) = [r2]"
    and new: "taste r2 = t2" "presentation r2 = p2" "easy r2 = z2" "judge r2 = j2"
    and old: "created_at r2 = created_at r1" "row_id r2 = row_id r1"
    using upsert_pair [OF u1, of e dev now2 t2 p2 z2 j2]
    unfolding d2_def [symmetric] using r1 by blast
  show ?thesis
    using a1 a2 r1 r2 new old first unfolding dev_def by blast
qed

theorem rate_twice_one_row_witness:
  "sql_unique (rows init_db) \<and>
   (\<exists>d1 d2 r1 r2.
      api_rate [''device_id'' \<mapsto> ''d-1'']
        (Some (JObj [(''entrant_index'', JInt 2), (''taste'', JInt 5), (''presentation'', JInt 4),
                     (''easy'', JInt 3), (''judge'', JStr ''Ann'')]))
        ''2025-02-09 18:00:00'' init_db = (Ok200 (), d1) \<and>
      api_rate [''device_id'' \<mapsto> ''d-1'']
        (Some (JObj [(''entrant_index'', JInt 2), (''taste'', JInt 1), (''presentation'', JInt 2),
                     (''easy'', JInt 2), (''judge'', JStr '' Bea '')]))
        ''2025-02-09 18:30:00'' d1 = (Ok200 (), d2) \<and>
      filter (conflicts 2 ''d-1'') (rows d1) = [r1] \<and>
      filter (conflicts 2 ''d-1'') (rows d2) = [r2] \<and>
      taste r2 = 1 \<and> presentation r2 = 2 \<and> easy r2 = 2 \<and> judge r2 = Some ''Bea'' \<and>
      created_at r2 = ''2025-02-09 18:00:00'')"
proof -
  let ?c = "[''device_id'' \<mapsto> ''d-1'']"
  let ?b1 = "Some (JObj [(''entrant_index'', JInt 2), (''taste'', JInt 5), (''presentation'', JInt 4),
                     (''easy'', JInt 3), (''judge'', JStr ''Ann'')])"
  let ?b2 = "Some (JObj [(''entrant_index'', JInt 2), (''taste'', JInt 1), (''presentation'', JInt 2),
                     (''easy'', JInt 2), (''judge'', JStr '' Bea '')])"
  have u: "sql_unique (rows init_db)" by (simp add: sql_unique_def init_db_def)
  have p1: "parse_rating (payload ?b1) = Inr (2, 5, 4, 3, Some ''Ann'')"
    by (simp add: request_defs)
  have p2: "parse_rating (payload ?b2) = Inr (2, 1, 2, 2, Some ''Bea'')"
    by (simp add: request_defs)
  have dev: "device_id_from_request ?c = ''d-1''" by (simp add: request_defs)
  have none: "filter (conflicts 2 ''d-1'') (rows init_db) = []" by (simp add: init_db_def)
  from rate_twice_one_row [OF u p1 p2, of ?c "''2025-02-09 18:00:00''" "''2025-02-09 18:30:00''"]
  show ?thesis unfolding dev using u none by (simp add: ENTRANTS_def) metis
qed

text \<open>
  C2, as the specification words it, fails for a number that lies outside the range and is
  not an integer: a taste of 5.99 is above 5 and an entrant index of -0.5 is below 0, and
  both requests are accepted, because \<open>int\<close> truncates them to 5 and to 0 before the
  range is tested.
\<close>

theorem fraction_out_of_range_counterexample:
  "(5 :: rat) < 599 / 100 \<and>
   api_rate Map.empty
     (Some (JObj [(''entrant_index'', JInt 0), (''taste'', JFloat (Finite (599 / 100))),
                  (''presentation'', JInt 3), (''easy'', JInt 3)]))
     ''2025-02-09 18:00:00'' init_db
   = (Ok200 (),
      \<lparr>rows = [\<lparr>row_id = 1, entrant_index = 0, taste = 5, presentation = 3, easy = 3,
                 judge = None, device_id = Some ''anon'', created_at = ''2025-02-09 18:00:00''\<rparr>],
       next_id = 2\<rparr>) \<and>
   (- 1 / 2 :: rat) < 0 \<and>
   api_rate Map.empty
     (Some (JObj [(''entrant_index'', JFloat (Finite (- 1 / 2))), (''taste'', JInt 3),
                  (''presentation'', JInt 3), (''easy'', JInt 3)]))
     ''2025-02-09 18:00:00'' init_db
   = (Ok200 (),
      \<lparr>rows = [\<lparr>row_id = 1, entrant_index = 0, taste = 3, presentation = 3, easy = 3,
                 judge = None, device_id = Some ''anon'', created_at = ''2025-02-09 18:00:00''\<rparr>],
       next_id = 2\<rparr>)"
proof -
  have fl: "\<lfloor>599 / 100 :: rat\<rfloor> = 5" by (simp add: floor_eq_iff)
  have ce: "\<lceil>- (1 / 2) :: rat\<rceil> = 0" by (simp add: ceiling_eq_iff)
  show ?thesis by (simp add: request_defs fl ce)
qed

text \<open>
  C2, amended. A submission whose entrant index converts to an integer outside the list,
  or one of whose scores converts to an integer outside 1..5, is answered with status 400
  and an error, and the table is the one before the request.
\<close>

theorem api_rate_rejects_out_of_range:
  assumes "out_of_range (payload body)"
  shows "\<exists>err. api_rate cookies body now d = (Error400 err, d) \<and>
               status (fst (api_rate cookies body now d)) = 400 \<and>
               \<not> ok (fst (api_rate cookies body now d))"
proof (cases "parse_rating (payload body)")
  case (Inl x)
  then show ?thesis by (simp add: api_rate_def)
next
  case (Inr q)
  obtain e t p z j where q: "q = (e, t, p, z, j)" by (cases q)
  from Inr q have "int_field (payload body) ''entrant_index'' = Inr e"
    and "int_field (payload body) ''taste'' = Inr t"
    and "int_field (payload body) ''presentation'' = Inr p"
    and "int_field (payload body) ''easy'' = Inr z"
    by (simp_all add: parse_rating_Inr)
  with assms have "e < 0 \<or> int (length ENTRANTS) \<le> e \<or> t < 1 \<or> 5 < t \<or> p < 1 \<or> 5 < p \<or> z < 1 \<or> 5 < z"
    by (auto simp: out_of_range_def)
  then show ?thesis using Inr q by (auto simp add: api_rate_def)
qed

theorem api_rate_rejects_out_of_range_witness:
  "out_of_range (payload (Some (JObj [(''entrant_index'', JInt 0), (''taste'', JInt 6),
                                      (''presentation'', JInt 3), (''easy'', JInt 3)]))) \<and>
   (\<exists>err. api_rate Map.empty
             (Some (JObj [(''entrant_index'', JInt 0), (''taste'', JInt 6),
                          (''presentation'', JInt 3), (''easy'', JInt 3)]))
             ''2025-02-09 18:00:00'' init_db = (Error400 err, init_db))"
proof -
  have h: "out_of_range (payload (Some (JObj [(''entrant_index'', JInt 0), (''taste'', JInt 6),
                                      (''presentation'', JInt 3), (''easy'', JInt 3)])))"
    by (simp add: out_of_range_def request_defs)
  from api_rate_rejects_out_of_range [OF h, of Map.empty "''2025-02-09 18:00:00''" init_db] h
  show ?thesis by blast
qed

section \<open>Device identity of a request without the cookie\<close>

text \<open>
  C9, as the specification words it: the identifier of a request without the cookie would
  be \<open>anonymous\<close>. The code's sentinel is another string.
\<close>

theorem device_id_anonymous_counterexample:
  "device_id_from_request Map.empty \<noteq> ''anonymous''"
  by (simp add: device_id_from_request_def)

text \<open>
  C9, amended. A request without the device cookie is identified as \<open>anon\<close>, so two such
  clients are one device to the rating and the own-rating operations: each gets the answer
  and leaves the table that the other would.
\<close>

theorem cookieless_device_id:
  assumes "c1 ''device_id'' = None" and "c2 ''device_id'' = None"
  shows "device_id_from_request c1 = ''anon'' \<and>
         device_id_from_request c2 = device_id_from_request c1 \<and>
         api_rate c2 body now d = api_rate c1 body now d \<and>
         api_my_rating args c2 d = api_my_rating args c1 d"
proof -
  have 1: "device_id_from_request c1 = ''anon''"
    using assms(1) by (simp add: device_id_from_request_def)
  have 2: "device_id_from_request c2 = ''anon''"
    using assms(2) by (simp add: device_id_from_request_def)
  show ?thesis
    unfolding api_rate_def api_my_rating_def 1 2 by simp
qed

theorem cookieless_device_id_witness:
  "[''theme'' \<mapsto> ''dark''] ''device_id'' = None \<and>
   [''session'' \<mapsto> ''x''] ''device_id'' = None \<and>
   device_id_from_request [''theme'' \<mapsto> ''dark''] = ''anon'' \<and>
   device_id_from_request [''session'' \<mapsto> ''x''] = device_id_from_request [''theme'' \<mapsto> ''dark'']"
proof -
  have h1: "[''theme'' \<mapsto> ''dark''] ''device_id'' = None" by simp
  have h2: "[''session'' \<mapsto> ''x''] ''device_id'' = None" by simp
  from cookieless_device_id [of "[''theme'' \<mapsto> ''dark'']" "[''session'' \<mapsto> ''x'']", OF h1 h2] h1 h2
  show ?thesis by blast
qed

section \<open>Integer conversion of the scores\<close>

lemma digit_char_props:
  assumes "d < 10"
  shows "is_digit (digit_char d)" and "digit_val (digit_char d) = d"
proof -
  from assms have "d \<in> {0, 1, 2, 3, 4, 5, 6, 7, 8, 9}" by auto
  then show "is_digit (digit_char d)" and "digit_val (digit_char d) = d"
    by (auto simp: is_digit_def digit_char_def digit_val_def)
qed

lemma is_digit_not_space: "is_digit c \<Longrightarrow> \<not> int_isspace c"
  by (auto simp: is_digit_def int_isspace_def)

lemma is_digit_not_sign: "is_digit c \<Longrightarrow> c \<noteq> CHR ''-'' \<and> c \<noteq> CHR ''+''"
  by (auto simp: is_digit_def)

lemma parse_digits_all_digits:
  "list_all is_digit s \<Longrightarrow> parse_digits acc s = Some (foldl (\<lambda>a c. 10 * a + digit_val c) acc s)"
  by (induction acc s rule: parse_digits.induct) auto

lemma filter_all_digits: "list_all is_digit s \<Longrightarrow> filter is_digit s = s"
  by (simp add: list_all_iff)

lemma parse_nat_all_digits:
  assumes "list_all is_digit s" and "s \<noteq> []" and "length s \<le> int_max_str_digits"
  shows "parse_nat s = Some (decimal_value s)"
proof -
  from assms(2) obtain c cs where s: "s = c # cs" by (cases s) auto
  have "\<not> int_max_str_digits < length (filter is_digit s)"
    using assms(3) by (simp add: filter_all_digits [OF assms(1)])
  then have "parse_nat s = (if is_digit c then parse_digits (digit_val c) cs else None)"
    unfolding parse_nat_def s by simp
  then show ?thesis using assms(1)
    by (simp add: s decimal_value_def parse_digits_all_digits)
qed

lemma parse_nat_too_long:
  "int_max_str_digits < length (filter is_digit s) \<Longrightarrow> parse_nat s = None"
  by (simp add: parse_nat_def)

lemma str_nat_digits: "list_all is_digit (str_nat n) \<and> str_nat n \<noteq> []"
proof (induction n rule: str_nat.induct)
  case (1 n)
  show ?case
  proof (cases "n < 10")
    case True
    then show ?thesis by (simp add: str_nat.simps [of n] digit_char_props)
  next
    case False
    with 1 show ?thesis by (simp add: str_nat.simps [of n] digit_char_props)
  qed
qed

lemma decimal_value_str_nat: "decimal_value (str_nat n) = n"
proof (induction n rule: str_nat.induct)
  case (1 n)
  show ?case
  proof (cases "n < 10")
    case True
    then show ?thesis by (simp add: str_nat.simps [of n] decimal_value_def digit_char_props)
  next
    case False
    with 1 have "decimal_value (str_nat (n div 10)) = n div 10" by simp
    then show ?thesis using False
      by (simp add: str_nat.simps [of n] decimal_value_def digit_char_props)
  qed
qed

lemma parse_nat_str_nat:
  "length (str_nat n) \<le> int_max_str_digits \<Longrightarrow> parse_nat (str_nat n) = Some n"
  using str_nat_digits [of n] by (simp add: parse_nat_all_digits decimal_value_str_nat)

lemma int_strip_ends:
  assumes "s \<noteq> []" and "\<not> int_isspace (hd s)" and "\<not> int_isspace (last s)"
  shows "int_strip s = s"
proof -
  have dw: "dropWhile int_isspace xs = xs" if "xs \<noteq> []" "\<not> int_isspace (hd xs)" for xs
    using that by (cases xs) auto
  have "dropWhile int_isspace s = s" using assms(1,2) by (rule dw)
  moreover have "dropWhile int_isspace (rev s) = rev s"
    using assms(1,3) by (intro dw) (simp_all add: hd_rev)
  ultimately show ?thesis by (simp add: int_strip_def)
qed

lemma int_strip_py_str: "int_strip (py_str n) = py_str n"
proof (rule int_strip_ends)
  have d: "list_all is_digit (str_nat k)" and ne: "str_nat k \<noteq> []" for k
    using str_nat_digits [of k] by simp_all
  show "py_str n \<noteq> []" using ne by (simp add: py_str_def)
  have "\<not> int_isspace (hd (str_nat k))" for k
    using d [of k] ne [of k] by (cases "str_nat k") (simp_all add: is_digit_not_space)
  then show "\<not> int_isspace (hd (py_str n))"
    by (simp add: py_str_def int_isspace_def)
  have "\<not> int_isspace (last (str_nat k))" for k
    using d [of k] ne [of k] last_in_set [of "str_nat k"]
    by (auto simp: list_all_iff is_digit_not_space)
  then show "\<not> int_isspace (last (py_str n))"
    using ne by (simp add: py_str_def)
qed

lemma py_int_of_str_py_str:
  assumes "length (str_nat (nat \<bar>n\<bar>)) \<le> int_max_str_digits"
  shows "py_int_of_str (py_str n) = Some n"
proof (cases "n < 0")
  case True
  then have "py_str n = CHR ''-'' # str_nat (nat \<bar>n\<bar>)" by (simp add: py_str_def abs_if)
  then show ?thesis using True int_strip_py_str [of n] assms
    by (simp add: py_int_of_str_def parse_nat_str_nat)
next
  case False
  then have s: "py_str n = str_nat (nat \<bar>n\<bar>)" by (simp add: py_str_def abs_if)
  obtain c cs where cs: "str_nat (nat \<bar>n\<bar>) = c # cs"
    using str_nat_digits [of "nat \<bar>n\<bar>"] by (cases "str_nat (nat \<bar>n\<bar>)") auto
  then have "is_digit c" using str_nat_digits [of "nat \<bar>n\<bar>"] by simp
  then have "c \<noteq> CHR ''-''" "c \<noteq> CHR ''+''" using is_digit_not_sign by auto
  moreover have "parse_nat (c # cs) = Some (nat \<bar>n\<bar>)"
    using parse_nat_str_nat [OF assms] cs by simp
  ultimately show ?thesis using False int_strip_py_str [of n] s cs
    by (simp add: py_int_of_str_def)
qed

lemma truncation_py_trunc: "truncation q k \<longleftrightarrow> k = py_trunc q"
proof (cases "0 \<le> q")
  case True
  show ?thesis
  proof
    assume t: "truncation q k"
    have "0 \<le> k"
    proof (rule ccontr)
      assume "\<not> 0 \<le> k"
      then have k: "k < 0" by simp
      then have "(of_int k :: rat) < 0" by simp
      with t True have "q = 0" by (auto simp: truncation_def zero_le_mult_iff)
      with t k show False by (simp add: truncation_def)
    qed
    with t True have "of_int k \<le> q" "q < of_int k + 1" by (simp_all add: truncation_def)
    then have "\<lfloor>q\<rfloor> = k" by (rule floor_unique)
    with True show "k = py_trunc q" by (simp add: py_trunc_def)
  next
    assume "k = py_trunc q"
    with True have k: "k = \<lfloor>q\<rfloor>" by (simp add: py_trunc_def)
    have "0 \<le> \<lfloor>q\<rfloor>" using True by simp
    moreover have "of_int \<lfloor>q\<rfloor> \<le> q" "q < of_int \<lfloor>q\<rfloor> + 1" by linarith+
    ultimately show "truncation q k" using True by (simp add: truncation_def k)
  qed
next
  case False
  then have neg: "q < 0" by simp
  show ?thesis
  proof
    assume t: "truncation q k"
    have "k \<le> 0"
    proof (rule ccontr)
      assume "\<not> k \<le> 0"
      then have "(0 :: rat) < of_int k" by simp
      with neg have "of_int k * q < 0" by (simp add: mult_pos_neg)
      with t show False by (simp add: truncation_def)
    qed
    then have "(of_int k :: rat) \<le> 0" by simp
    with t neg have "of_int k - 1 < q" "q \<le> of_int k" by (simp_all add: truncation_def)
    then have "\<lceil>q\<rceil> = k" by (rule ceiling_unique)
    with neg show "k = py_trunc q" by (simp add: py_trunc_def)
  next
    assume "k = py_trunc q"
    with neg have k: "k = \<lceil>q\<rceil>" by (simp add: py_trunc_def)
    have c0: "\<lceil>q\<rceil> \<le> 0" using neg by (simp add: ceiling_le_iff)
    then have c0': "(of_int \<lceil>q\<rceil> :: rat) \<le> 0" by simp
    have b: "q \<le> of_int \<lceil>q\<rceil>" "of_int \<lceil>q\<rceil> - 1 < q" by linarith+
    have "0 \<le> of_int \<lceil>q\<rceil> * q" using c0' neg by (simp add: mult_nonpos_nonpos)
    with b c0' neg show "truncation q k" by (simp add: truncation_def k)
  qed
qed

lemma py_int_lenient: "lenient_score v n \<Longrightarrow> py_int v = Inr n"
  by (induction rule: lenient_score.induct)
    (simp_all add: py_int_of_str_py_str truncation_py_trunc)

lemma int_field_lenient:
  "map_of kvs k = Some v \<Longrightarrow> lenient_score v n \<Longrightarrow> int_field (JObj kvs) k = Inr n"
  by (simp add: int_field_def dict_get_def raising_def py_int_lenient)

lemma upsert_stores:
  "(\<exists>r \<in> set (rows (upsert d now e t p z j dev)). conflicts e dev r) \<and>
   (\<forall>r \<in> set (rows (upsert d now e t p z j dev)).
      conflicts e dev r \<longrightarrow> taste r = t \<and> presentation r = p \<and> easy r = z \<and> judge r = j)"
proof (cases "\<exists>r \<in> set (rows d). conflicts e dev r")
  case True
  let ?g = "\<lambda>r. if conflicts e dev r
                 then r\<lparr>taste := t, presentation := p, easy := z, judge := j\<rparr> else r"
  have rs: "rows (upsert d now e t p z j dev) = map ?g (rows d)"
    using True by (simp only: upsert_rows if_True)
  from True obtain r0 where r0: "r0 \<in> set (rows d)" "conflicts e dev r0" by blast
  have "?g r0 \<in> ?g ` set (rows d)" using r0(1) by (rule imageI)
  moreover have "conflicts e dev (?g r0)" using r0(2) by (simp add: conflicts_def)
  ultimately have ex: "\<exists>r \<in> set (map ?g (rows d)). conflicts e dev r"
    unfolding set_map by (rule bexI [rotated])
  have "taste r = t \<and> presentation r = p \<and> easy r = z \<and> judge r = j"
    if "r \<in> set (map ?g (rows d))" and c: "conflicts e dev r" for r
  proof -
    from that(1) obtain r' where r': "r = ?g r'" unfolding set_map by (rule imageE)
    show ?thesis
    proof (cases "conflicts e dev r'")
      case True
      then show ?thesis unfolding r' by simp
    next
      case False
      then show ?thesis using c unfolding r' by simp
    qed
  qed
  then have "\<forall>r \<in> set (map ?g (rows d)).
      conflicts e dev r \<longrightarrow> taste r = t \<and> presentation r = p \<and> easy r = z \<and> judge r = j"
    by blast
  with ex show ?thesis unfolding rs by blast
next
  case False
  then show ?thesis
    by (simp only: upsert_rows if_False) (auto simp: conflicts_def)
qed

text \<open>
  C10, as the specification words it, fails for a numeric string that is not the text of an
  integer and for a number beyond the doubles: \<open>int("4.7")\<close> raises, as does \<open>int\<close> of the
  infinity that \<open>1e999\<close> parses to, and both requests are answered "Invalid payload".
\<close>

theorem numeric_string_counterexample:
  "api_rate Map.empty
     (Some (JObj [(''entrant_index'', JInt 0), (''taste'', JStr ''4.7''),
                  (''presentation'', JInt 3), (''easy'', JInt 3)]))
     ''2025-02-09 18:00:00'' init_db
   = (Error400 Invalid_payload, init_db) \<and>
   api_rate Map.empty
     (Some (JObj [(''entrant_index'', JInt 0), (''taste'', JFloat PosInf),
                  (''presentation'', JInt 3), (''easy'', JInt 3)]))
     ''2025-02-09 18:00:00'' init_db
   = (Error400 Invalid_payload, init_db)"
  by (simp add: request_defs)

text \<open>
  C10, amended. A score sent as a finite float or as the decimal text of an integer (of at
  most \<open>int_max_str_digits\<close> digits) is converted, the float by truncation towards zero,
  and is no reason for the answer "Invalid payload". When the converted scores lie in 1..5
  (and the entrant index and the judge are acceptable) the request succeeds, and the row of
  the entrant and device holds the converted scores.
\<close>

theorem api_rate_coerces_scores:
  assumes "payload body = JObj kvs"
    and "int_field (JObj kvs) ''entrant_index'' = Inr e"
    and "0 \<le> e" and "e < int (length ENTRANTS)"
    and "judge_field (JObj kvs) = Inr j"
    and "map_of kvs ''taste'' = Some tv" and "lenient_score tv t"
    and "map_of kvs ''presentation'' = Some pv" and "lenient_score pv p"
    and "map_of kvs ''easy'' = Some zv" and "lenient_score zv z"
  shows "fst (api_rate cookies body now d) \<noteq> Error400 Invalid_payload \<and>
         (1 \<le> t \<and> t \<le> 5 \<and> 1 \<le> p \<and> p \<le> 5 \<and> 1 \<le> z \<and> z \<le> 5 \<longrightarrow>
            fst (api_rate cookies body now d) = Ok200 () \<and>
            (\<exists>r \<in> set (rows (snd (api_rate cookies body now d))).
               conflicts e (device_id_from_request cookies) r) \<and>
            (\<forall>r \<in> set (rows (snd (api_rate cookies body now d))).
               conflicts e (device_id_from_request cookies) r \<longrightarrow>
               taste r = t \<and> presentation r = p \<and> easy r = z))"
proof -
  have pr: "parse_rating (payload body) = Inr (e, t, p, z, j)"
    unfolding assms(1) parse_rating_Inr
    using assms(2,5) int_field_lenient [OF assms(6,7)] int_field_lenient [OF assms(8,9)]
      int_field_lenient [OF assms(10,11)] by simp
  have 1: "fst (api_rate cookies body now d) \<noteq> Error400 Invalid_payload"
    using pr by (simp add: api_rate_def)
  have 2: "fst (api_rate cookies body now d) = Ok200 () \<and>
            (\<exists>r \<in> set (rows (snd (api_rate cookies body now d))).
               conflicts e (device_id_from_request cookies) r) \<and>
            (\<forall>r \<in> set (rows (snd (api_rate cookies body now d))).
               conflicts e (device_id_from_request cookies) r \<longrightarrow>
               taste r = t \<and> presentation r = p \<and> easy r = z)"
    if ok: "1 \<le> t \<and> t \<le> 5 \<and> 1 \<le> p \<and> p \<le> 5 \<and> 1 \<le> z \<and> z \<le> 5"
  proof -
    have "api_rate cookies body now d =
            (Ok200 (), upsert d now e t p z j (device_id_from_request cookies))"
      using pr assms(3,4) ok by (rule api_rate_accepts)
    then show ?thesis
      using upsert_stores [of d now e t p z j "device_id_from_request cookies"] by simp
  qed
  from 1 2 show ?thesis by blast
qed

theorem api_rate_coerces_scores_witness:
  "lenient_score (JFloat (Finite (47 / 10))) 4 \<and> lenient_score (JStr ''4'') 4 \<and>
   api_rate [''device_id'' \<mapsto> ''d-1'']
     (Some (JObj [(''entrant_index'', JInt 0), (''taste'', JFloat (Finite (47 / 10))),
                  (''presentation'', JStr ''4''), (''easy'', JInt 3)]))
     ''2025-02-09 18:00:00'' init_db
   = (Ok200 (),
      \<lparr>rows = [\<lparr>row_id = 1, entrant_index = 0, taste = 4, presentation = 4, easy = 3,
                 judge = None, device_id = Some ''d-1'', created_at = ''2025-02-09 18:00:00''\<rparr>],
       next_id = 2\<rparr>)"
proof -
  let ?kvs = "[(''entrant_index'', JInt 0), (''taste'', JFloat (Finite (47 / 10))),
                  (''presentation'', JStr ''4''), (''easy'', JInt 3)]"
  have fl: "\<lfloor>47 / 10 :: rat\<rfloor> = 4" by (simp add: floor_eq_iff)
  have "truncation (47 / 10) 4" by (simp add: truncation_def)
  then have t: "lenient_score (JFloat (Finite (47 / 10))) 4" by (rule float_score)
  have four: "py_str 4 = ''4''" by (simp add: py_str_def str_nat.simps digit_char_def)
  have "length (str_nat (nat \<bar>4\<bar>)) \<le> int_max_str_digits"
    by (simp add: str_nat.simps int_max_str_digits_def)
  from text_score [OF this] have p: "lenient_score (JStr ''4'') 4" by (simp only: four)
  have z: "lenient_score (JInt 3) 3" by (rule int_score)
  have pl: "payload (Some (JObj ?kvs)) = JObj ?kvs" by (simp add: payload_def)
  have e: "int_field (JObj ?kvs) ''entrant_index'' = Inr 0"
    by (simp add: int_field_def dict_get_def raising_def)
  have j: "judge_field (JObj ?kvs) = Inr None"
    by (simp add: judge_field_def dict_get_def raising_def)
  have res: "api_rate [''device_id'' \<mapsto> ''d-1''] (Some (JObj ?kvs)) ''2025-02-09 18:00:00'' init_db
     = (Ok200 (),
      \<lparr>rows = [\<lparr>row_id = 1, entrant_index = 0, taste = 4, presentation = 4, easy = 3,
                 judge = None, device_id = Some ''d-1'', created_at = ''2025-02-09 18:00:00''\<rparr>],
       next_id = 2\<rparr>)"
    by (simp add: request_defs fl)
  from api_rate_coerces_scores [OF pl e _ _ j _ t _ p _ z, of "[''device_id'' \<mapsto> ''d-1'']" "''2025-02-09 18:00:00''" init_db]
  have "fst (api_rate [''device_id'' \<mapsto> ''d-1''] (Some (JObj ?kvs)) ''2025-02-09 18:00:00'' init_db) = Ok200 ()"
    by (simp add: ENTRANTS_def)
  with t p res show ?thesis by simp
qed

section \<open>The leaderboard\<close>

subsection \<open>Lists, groups and the descending order\<close>

lemma collect_map:
  "(\<And>x. x \<in> set xs \<Longrightarrow> f x = Inr (g x)) \<Longrightarrow> collect f xs = Inr (map g xs)"
  by (induction xs) (simp_all add: raising_def)

lemma distinct_ENTRANTS: "distinct ENTRANTS"
  by (simp add: ENTRANTS_def)

lemma py_getitem_in_range:
  "0 \<le> e \<Longrightarrow> e < int (length xs) \<Longrightarrow> py_getitem xs e = Inr (xs ! nat e)"
  by (simp add: py_getitem_def)

lemma group_by_entrant_eq:
  "group_by_entrant rs = map (\<lambda>k. (k, ratings_of k rs)) (remdups (sort (map entrant_index rs)))"
  by (simp add: group_by_entrant_def ratings_of_def)

lemma ratings_of_nonempty: "e \<in> entrant_index ` set rs \<Longrightarrow> ratings_of e rs \<noteq> []"
  by (auto simp: ratings_of_def filter_empty_conv)

lemma mset_order_by_desc: "mset (order_by_desc key xs) = mset xs"
  by (simp add: order_by_desc_def)

lemma sorted_order_by_desc:
  "sorted_wrt (\<lambda>a b. key b \<le> key a) (order_by_desc key xs)"
proof -
  have "sorted (map key (sort_key key (rev xs)))" by (rule sorted_sort_key)
  then have "sorted_wrt (\<lambda>a b. key a \<le> key b) (sort_key key (rev xs))"
    by (simp add: sorted_map)
  then show ?thesis
    by (simp add: order_by_desc_def sorted_wrt_rev)
qed

lemma sql_avg_mean: "xs \<noteq> [] \<Longrightarrow> sql_avg xs = Some (mean xs)"
  by (simp add: sql_avg_def mean_def)

subsection \<open>Rounding to an integer, ties to even\<close>

lemma round_half_even_near: "\<bar>of_int (round_half_even x) - x\<bar> \<le> 1 / 2"
proof -
  have "of_int \<lfloor>x\<rfloor> \<le> x" and "x < of_int \<lfloor>x\<rfloor> + 1" by linarith+
  then show ?thesis
    unfolding round_half_even_def Let_def
    by (simp only: split: if_split) (simp add: abs_if, linarith)
qed

lemma round_half_even_tie:
  assumes "\<bar>of_int (round_half_even x) - x\<bar> = 1 / 2"
  shows "even (round_half_even x)"
proof -
  have b: "of_int \<lfloor>x\<rfloor> \<le> x" "x < of_int \<lfloor>x\<rfloor> + 1" by linarith+
  have "x - of_int \<lfloor>x\<rfloor> = 1 / 2"
  proof (rule ccontr)
    assume n: "x - of_int \<lfloor>x\<rfloor> \<noteq> 1 / 2"
    show False
    proof (cases "x - of_int \<lfloor>x\<rfloor> < 1 / 2")
      case True
      then have "round_half_even x = \<lfloor>x\<rfloor>" by (simp add: round_half_even_def)
      with assms have "\<bar>of_int \<lfloor>x\<rfloor> - x\<bar> = 1 / 2" by (simp only:)
      with b True show False by linarith
    next
      case False
      with n have gt: "1 / 2 < x - of_int \<lfloor>x\<rfloor>" by simp
      then have "round_half_even x = \<lfloor>x\<rfloor> + 1" by (simp add: round_half_even_def)
      with assms have "\<bar>of_int (\<lfloor>x\<rfloor> + 1) - x\<bar> = 1 / 2" by (simp only:)
      then have "\<bar>of_int \<lfloor>x\<rfloor> + 1 - x\<bar> = 1 / 2" by simp
      with b gt show False by linarith
    qed
  qed
  then show ?thesis by (simp add: round_half_even_def Let_def)
qed

lemma round_half_even_bounds:
  "\<lfloor>x\<rfloor> \<le> round_half_even x \<and> round_half_even x \<le> \<lfloor>x\<rfloor> + 1"
  by (simp add: round_half_even_def Let_def)

lemma round_half_even_mono:
  assumes "x \<le> y"
  shows "round_half_even x \<le> round_half_even y"
proof (cases "\<lfloor>x\<rfloor> < \<lfloor>y\<rfloor>")
  case True
  then show ?thesis
    using round_half_even_bounds [of x] round_half_even_bounds [of y] by linarith
next
  case False
  then have eq: "\<lfloor>x\<rfloor> = \<lfloor>y\<rfloor>" using floor_mono [OF assms] by linarith
  then have "x - of_int \<lfloor>x\<rfloor> \<le> y - of_int \<lfloor>y\<rfloor>" using assms by simp
  then show ?thesis
    unfolding round_half_even_def Let_def eq by auto
qed

lemma round_half_even_of_int [simp]: "round_half_even (of_int k) = k"
  by (simp add: round_half_even_def)

lemma round_half_even_minus: "round_half_even (- x) = - round_half_even x"
proof (cases "x = of_int \<lfloor>x\<rfloor>")
  case True
  then obtain k where "x = of_int k" ..
  then have "- x = of_int (- k)" by simp
  then show ?thesis unfolding \<open>x = of_int k\<close> by (simp only: round_half_even_of_int)
next
  case False
  then have lt: "of_int \<lfloor>x\<rfloor> < x" by linarith
  have up: "x < of_int \<lfloor>x\<rfloor> + 1" by linarith
  have fl: "\<lfloor>- x\<rfloor> = - \<lfloor>x\<rfloor> - 1"
  proof (rule floor_unique)
    show "of_int (- \<lfloor>x\<rfloor> - 1) \<le> - x" using up by simp
    show "- x < of_int (- \<lfloor>x\<rfloor> - 1) + 1" using lt by simp
  qed
  show ?thesis
    unfolding round_half_even_def Let_def fl using lt up
    by (auto simp: field_simps)
qed

subsection \<open>Rounding to a double\<close>

text \<open>
  \<open>to_double\<close> stays in the binade of its argument, is odd and monotone, and its relative
  error is at most \<open>2^-53\<close>.
\<close>

lemma exponent_bounds:
  assumes "x \<noteq> 0"
  shows "2 powi exponent x \<le> \<bar>x\<bar> \<and> \<bar>x\<bar> < 2 powi (exponent x + 1)"
proof -
  obtain p q where pq: "quotient_of \<bar>x\<bar> = (p, q)" by (cases "quotient_of \<bar>x\<bar>")
  then have q: "0 < q" and x: "\<bar>x\<bar> = of_int p / of_int q"
    by (auto dest: quotient_of_denom_pos quotient_of_div)
  from assms have "0 < \<bar>x\<bar>" by simp
  with x q have p: "0 < p" by (simp add: zero_less_divide_iff)
  define e where "e = bitlen p - bitlen q"
  have bp: "1 \<le> bitlen p" and bq: "1 \<le> bitlen q"
    using p q bitlen_eq_zero_iff [of p] bitlen_eq_zero_iff [of q] bitlen_nonneg [of p] bitlen_nonneg [of q]
    by linarith+
  have P: "(2::rat) powi (bitlen p - 1) \<le> of_int p" "of_int p < (2::rat) powi (bitlen p)"
  proof -
    from bitlen_bounds [OF p] have "2 ^ nat (bitlen p - 1) \<le> p" "p < 2 ^ nat (bitlen p)" by auto
    then have "(of_int (2 ^ nat (bitlen p - 1)) :: rat) \<le> of_int p" "(of_int p :: rat) < of_int (2 ^ nat (bitlen p))"
      by (simp_all only: of_int_le_iff of_int_less_iff)
    then show "(2::rat) powi (bitlen p - 1) \<le> of_int p" "of_int p < (2::rat) powi (bitlen p)"
      using bp by (simp_all add: power_int_def)
  qed
  have Q: "(2::rat) powi (bitlen q - 1) \<le> of_int q" "of_int q < (2::rat) powi (bitlen q)"
  proof -
    from bitlen_bounds [OF q] have "2 ^ nat (bitlen q - 1) \<le> q" "q < 2 ^ nat (bitlen q)" by auto
    then have "(of_int (2 ^ nat (bitlen q - 1)) :: rat) \<le> of_int q" "(of_int q :: rat) < of_int (2 ^ nat (bitlen q))"
      by (simp_all only: of_int_le_iff of_int_less_iff)
    then show "(2::rat) powi (bitlen q - 1) \<le> of_int q" "of_int q < (2::rat) powi (bitlen q)"
      using bq by (simp_all add: power_int_def)
  qed
  have qpos: "(0::rat) < of_int q" using q by simp
  have up: "\<bar>x\<bar> < 2 powi (e + 1)"
  proof -
    have "of_int p < (2::rat) powi (e + 1) * 2 powi (bitlen q - 1)"
      using P(2) by (simp add: e_def power_int_add [symmetric])
    also have "\<dots> \<le> 2 powi (e + 1) * of_int q"
      using Q(1) by (simp add: mult_left_mono)
    finally show ?thesis unfolding x using qpos by (simp add: pos_divide_less_eq)
  qed
  have lo: "2 powi (e - 1) \<le> \<bar>x\<bar>"
  proof -
    have "(2::rat) powi (e - 1) * of_int q \<le> 2 powi (e - 1) * 2 powi (bitlen q)"
      using Q(2) by (simp add: mult_left_mono)
    also have "\<dots> = 2 powi (bitlen p - 1)"
      by (simp add: e_def power_int_add [symmetric])
    also have "\<dots> \<le> of_int p" by (rule P(1))
    finally show ?thesis unfolding x using qpos by (simp add: pos_le_divide_eq)
  qed
  have ex: "exponent x = (if 2 powi e \<le> \<bar>x\<bar> then e else e - 1)"
    by (simp add: exponent_def pq e_def Let_def)
  show ?thesis
  proof (cases "2 powi e \<le> \<bar>x\<bar>")
    case True
    then show ?thesis using up by (simp add: ex)
  next
    case False
    then show ?thesis using lo by (simp add: ex)
  qed
qed

lemma exponent_minus [simp]: "exponent (- x) = exponent x"
  by (simp add: exponent_def)

lemma to_double_minus: "to_double (- x) = - to_double x"
  by (simp add: to_double_def Let_def round_half_even_minus)

lemma exponent_mono:
  assumes "0 < x" and "x \<le> y"
  shows "exponent x \<le> exponent y"
proof -
  from assms have "x \<noteq> 0" "y \<noteq> 0" by auto
  note bx = exponent_bounds [OF this(1)] and by' = exponent_bounds [OF this(2)]
  from bx by' assms have lt: "(2::rat) powi exponent x < 2 powi (exponent y + 1)" by simp
  show ?thesis
  proof (rule ccontr)
    assume "\<not> exponent x \<le> exponent y"
    then have "exponent y + 1 \<le> exponent x" by simp
    then have "(2::rat) powi (exponent y + 1) \<le> 2 powi exponent x"
      by (rule power_int_increasing) simp
    with lt show False by simp
  qed
qed

lemma to_double_binade:
  assumes "0 < x"
  shows "2 powi exponent x \<le> to_double x \<and> to_double x \<le> 2 powi (exponent x + 1)"
proof -
  define u :: rat where "u = 2 powi (exponent x - 52)"
  have u: "0 < u" by (simp add: u_def zero_less_power_int)
  from assms have "x \<noteq> 0" by simp
  from exponent_bounds [OF this] assms
  have b: "2 powi exponent x \<le> x" "x < 2 powi (exponent x + 1)" by simp_all
  have e1: "(2::rat) powi exponent x = of_int (2 ^ 52) * u"
    by (simp add: u_def power_int_diff)
  have e2: "(2::rat) powi (exponent x + 1) = of_int (2 ^ 53) * u"
    by (simp add: u_def power_int_diff power_int_add)
  have "of_int (2 ^ 52) \<le> x / u" using b(1) u unfolding e1 by (simp add: pos_le_divide_eq)
  then have "round_half_even (of_int (2 ^ 52)) \<le> round_half_even (x / u)"
    by (rule round_half_even_mono)
  then have lo: "2 ^ 52 \<le> round_half_even (x / u)" by (simp only: round_half_even_of_int)
  have "x / u \<le> of_int (2 ^ 53)" using b(2) u unfolding e2 by (simp add: pos_divide_le_eq)
  then have "round_half_even (x / u) \<le> round_half_even (of_int (2 ^ 53))"
    by (rule round_half_even_mono)
  then have hi: "round_half_even (x / u) \<le> 2 ^ 53" by (simp only: round_half_even_of_int)
  have td: "to_double x = of_int (round_half_even (x / u)) * u"
    using \<open>x \<noteq> 0\<close> by (simp add: to_double_def u_def Let_def)
  have "of_int (2 ^ 52) * u \<le> of_int (round_half_even (x / u)) * u"
    using lo u by (intro mult_right_mono) (simp_all only: of_int_le_iff order_less_imp_le)
  moreover have "of_int (round_half_even (x / u)) * u \<le> of_int (2 ^ 53) * u"
    using hi u by (intro mult_right_mono) (simp_all only: of_int_le_iff order_less_imp_le)
  ultimately show ?thesis unfolding td e1 e2 by simp
qed

lemma to_double_pos: "0 < x \<Longrightarrow> 0 < to_double x"
  using to_double_binade [of x] zero_less_power_int [of "2::rat" "exponent x"]
  by linarith

lemma to_double_mono_pos:
  assumes "0 < x" and "x \<le> y"
  shows "to_double x \<le> to_double y"
proof (cases "exponent x = exponent y")
  case True
  define u :: rat where "u = 2 powi (exponent x - 52)"
  have u: "0 < u" by (simp add: u_def zero_less_power_int)
  from assms have nz: "x \<noteq> 0" "y \<noteq> 0" by auto
  have "x / u \<le> y / u" using assms(2) u by (simp add: divide_right_mono)
  then have "round_half_even (x / u) \<le> round_half_even (y / u)" by (rule round_half_even_mono)
  then have "of_int (round_half_even (x / u)) * u \<le> of_int (round_half_even (y / u)) * u"
    using u by (intro mult_right_mono) (simp_all only: of_int_le_iff order_less_imp_le)
  then show ?thesis using nz True by (simp add: to_double_def u_def Let_def)
next
  case False
  with exponent_mono [OF assms] have "exponent x + 1 \<le> exponent y" by simp
  then have "(2::rat) powi (exponent x + 1) \<le> 2 powi exponent y"
    by (rule power_int_increasing) simp
  moreover from assms have "0 < y" by simp
  ultimately show ?thesis
    using to_double_binade [OF assms(1)] to_double_binade [OF \<open>0 < y\<close>] by linarith
qed

lemma to_double_zero [simp]: "to_double 0 = 0"
  by (simp add: to_double_def)

lemma to_double_mono:
  assumes "x \<le> y"
  shows "to_double x \<le> to_double y"
proof -
  consider "0 < x" | "x \<le> 0" "0 \<le> y" | "y < 0" by linarith
  then show ?thesis
  proof cases
    case 1
    then show ?thesis using assms by (rule to_double_mono_pos)
  next
    case 2
    have "to_double x \<le> 0"
    proof (cases "x = 0")
      case False
      with 2 have "0 < - x" by simp
      from to_double_pos [OF this] show ?thesis by (simp add: to_double_minus)
    qed simp
    moreover have "0 \<le> to_double y"
    proof (cases "y = 0")
      case False
      with 2 have "0 < y" by simp
      from to_double_pos [OF this] show ?thesis by simp
    qed simp
    ultimately show ?thesis by simp
  next
    case 3
    with assms have "0 < - y" "- y \<le> - x" by simp_all
    from to_double_mono_pos [OF this] show ?thesis by (simp add: to_double_minus)
  qed
qed

lemma to_double_error: "\<bar>to_double x - x\<bar> \<le> \<bar>x\<bar> / 2 ^ 53"
proof (cases "x = 0")
  case True
  then show ?thesis by simp
next
  case False
  define u :: rat where "u = 2 powi (exponent x - 52)"
  have u: "0 < u" by (simp add: u_def zero_less_power_int)
  have td: "to_double x = of_int (round_half_even (x / u)) * u"
    using False by (simp add: to_double_def u_def Let_def)
  have "to_double x - x = (of_int (round_half_even (x / u)) - x / u) * u"
    using u by (simp add: td field_simps)
  then have "\<bar>to_double x - x\<bar> = \<bar>of_int (round_half_even (x / u)) - x / u\<bar> * u"
    using u by (simp add: abs_mult)
  also have "\<dots> \<le> 1 / 2 * u"
    using round_half_even_near [of "x / u"] u by (intro mult_right_mono) simp_all
  also have "\<dots> = 2 powi exponent x / 2 ^ 53"
    by (simp add: u_def power_int_diff)
  also have "\<dots> \<le> \<bar>x\<bar> / 2 ^ 53"
    using exponent_bounds [OF False] by (simp add: divide_right_mono)
  finally show ?thesis .
qed

subsection \<open>Rounding to two decimal places\<close>

lemma round_to_hundredth_nearest: "nearest_hundredth x (round_to_hundredth x)"
proof -
  let ?k = "round_half_even (x * 100)"
  have n: "\<bar>of_int ?k - x * 100\<bar> \<le> 1 / 2" by (rule round_half_even_near)
  have eq: "of_int ?k / 100 - x = (of_int ?k - x * 100) / 100" by (simp add: field_simps)
  have d: "\<bar>of_int ?k / 100 - x\<bar> = \<bar>of_int ?k - x * 100\<bar> / 100"
    unfolding eq by simp
  have near: "\<bar>of_int ?k / 100 - x\<bar> \<le> 1 / 200" unfolding d using n by simp
  have tie: "even ?k" if "\<bar>of_int ?k / 100 - x\<bar> = 1 / 200"
  proof -
    from that have "\<bar>of_int ?k - x * 100\<bar> = 1 / 2" unfolding d by simp
    then show ?thesis by (rule round_half_even_tie)
  qed
  show ?thesis
    using near tie by (simp add: nearest_hundredth_def round_to_hundredth_def)
qed

lemma round_to_hundredth_mono: "x \<le> y \<Longrightarrow> round_to_hundredth x \<le> round_to_hundredth y"
  using round_half_even_mono [of "x * 100" "y * 100"]
  by (simp add: round_to_hundredth_def divide_right_mono)

lemma py_round2_mono: "x \<le> y \<Longrightarrow> py_round2 x \<le> py_round2 y"
  unfolding py_round2_def by (intro to_double_mono round_to_hundredth_mono)

subsection \<open>The aggregate query and the entries\<close>

lemma aggregates_index:
  "map agg_entrant_index
     (map (\<lambda>(k, g). \<lparr>agg_entrant_index = k, agg_votes = length g,
                        agg_avg_taste = sql_avg (map taste g),
                        agg_avg_presentation = sql_avg (map presentation g),
                        agg_avg_easy = sql_avg (map easy g),
                        agg_avg_total = sql_avg (map total g)\<rparr>) (group_by_entrant rs))
   = remdups (sort (map entrant_index rs))"
  by (simp add: group_by_entrant_eq comp_def)

lemma leaderboard_query_indices:
  "mset (map agg_entrant_index (leaderboard_query rs)) = mset (remdups (sort (map entrant_index rs)))"
  unfolding leaderboard_query_def
  by (simp only: mset_map mset_order_by_desc aggregates_index [symmetric])

lemma leaderboard_query_elem:
  assumes "a \<in> set (leaderboard_query rs)"
  shows "agg_entrant_index a \<in> entrant_index ` set rs \<and>
         a = \<lparr>agg_entrant_index = agg_entrant_index a,
              agg_votes = length (ratings_of (agg_entrant_index a) rs),
              agg_avg_taste = Some (mean (map taste (ratings_of (agg_entrant_index a) rs))),
              agg_avg_presentation = Some (mean (map presentation (ratings_of (agg_entrant_index a) rs))),
              agg_avg_easy = Some (mean (map easy (ratings_of (agg_entrant_index a) rs))),
              agg_avg_total = Some (mean (map total (ratings_of (agg_entrant_index a) rs)))\<rparr>"
proof -
  from assms have "a \<in># mset (leaderboard_query rs)" by simp
  then have "a \<in> set (map (\<lambda>(k, g). \<lparr>agg_entrant_index = k, agg_votes = length g,
                        agg_avg_taste = sql_avg (map taste g),
                        agg_avg_presentation = sql_avg (map presentation g),
                        agg_avg_easy = sql_avg (map easy g),
                        agg_avg_total = sql_avg (map total g)\<rparr>) (group_by_entrant rs))"
    unfolding leaderboard_query_def mset_order_by_desc by simp
  then obtain k where k: "k \<in> entrant_index ` set rs"
    and a: "a = \<lparr>agg_entrant_index = k, agg_votes = length (ratings_of k rs),
                        agg_avg_taste = sql_avg (map taste (ratings_of k rs)),
                        agg_avg_presentation = sql_avg (map presentation (ratings_of k rs)),
                        agg_avg_easy = sql_avg (map easy (ratings_of k rs)),
                        agg_avg_total = sql_avg (map total (ratings_of k rs))\<rparr>"
    unfolding group_by_entrant_eq by auto
  from k have "ratings_of k rs \<noteq> []" by (rule ratings_of_nonempty)
  then show ?thesis using k a by (simp add: sql_avg_mean)
qed

lemma lb_entry_of_elem:
  assumes "entrants_in_range rs" and "a \<in> set (leaderboard_query rs)"
  shows "lb_entry_of a = Inr (expected_entry rs (agg_entrant_index a))"
proof -
  note el = leaderboard_query_elem [OF assms(2)]
  from el assms(1) have "0 \<le> agg_entrant_index a" and "agg_entrant_index a < int (length ENTRANTS)"
    by (auto simp: entrants_in_range_def list_all_iff)
  then have g: "py_getitem ENTRANTS (agg_entrant_index a) = Inr (ENTRANTS ! nat (agg_entrant_index a))"
    by (rule py_getitem_in_range)
  have "lb_entry_of a = Inr \<lparr>name = ENTRANTS ! nat (agg_entrant_index a), votes = agg_votes a,
            avg_taste = round2_or_0 (sql_real (agg_avg_taste a)),
            avg_presentation = round2_or_0 (sql_real (agg_avg_presentation a)),
            avg_easy = round2_or_0 (sql_real (agg_avg_easy a)),
            avg_total = round2_or_0 (sql_real (agg_avg_total a))\<rparr>"
    by (simp add: lb_entry_of_def g raising_def)
  also have "\<dots> = Inr (expected_entry rs (agg_entrant_index a))"
    by (subst (2 3 4 5 6) conjunct2 [OF el])
      (simp add: expected_entry_def round2_or_0_def sql_real_def)
  finally show ?thesis .
qed

lemma api_leaderboard_eq:
  assumes "entrants_in_range (rows d)"
  shows "api_leaderboard d =
           Inr (map (expected_entry (rows d)) (map agg_entrant_index (leaderboard_query (rows d))))"
  unfolding api_leaderboard_def map_map
  by (rule collect_map) (simp add: lb_entry_of_elem [OF assms])

lemma nth_ENTRANTS_inj:
  assumes "0 \<le> a" "a < int (length ENTRANTS)" "0 \<le> b" "b < int (length ENTRANTS)"
    and "ENTRANTS ! nat a = ENTRANTS ! nat b"
  shows "a = b"
proof -
  have "nat a = nat b"
    using assms distinct_ENTRANTS by (simp add: nth_eq_iff_index_eq)
  with assms show ?thesis by simp
qed

text \<open>
  C3. On a table whose entrant indices are all valid, the leaderboard is computed without
  an exception and lists the entrants \<open>es\<close>: each index that occurs in the table, once.
  The names are distinct, an entrant's name is listed exactly when the entrant has a stored
  rating, every entry has at least one vote, and the entries descend by the mean of
  \<open>taste + presentation + easy\<close> over the entrant's ratings, as do the rounded means
  that they show.
\<close>

theorem leaderboard_entries:
  assumes "entrants_in_range (rows d)"
  shows "\<exists>out es.
           api_leaderboard d = Inr out \<and>
           map name out = map (\<lambda>e. ENTRANTS ! nat e) es \<and>
           distinct es \<and> set es = entrant_index ` set (rows d) \<and>
           distinct (map name out) \<and>
           (\<forall>x \<in> set out. 0 < votes x) \<and>
           (\<forall>e. 0 \<le> e \<and> e < int (length ENTRANTS) \<longrightarrow>
              (ENTRANTS ! nat e \<in> set (map name out) \<longleftrightarrow> ratings_of e (rows d) \<noteq> [])) \<and>
           sorted_wrt (\<lambda>a b. mean (map total (ratings_of b (rows d))) \<le>
                              mean (map total (ratings_of a (rows d)))) es \<and>
           sorted_wrt (\<lambda>x y. avg_total y \<le> avg_total x) out"
proof -
  let ?rs = "rows d"
  let ?aggs = "leaderboard_query ?rs"
  let ?es = "map agg_entrant_index ?aggs"
  let ?out = "map (expected_entry ?rs) ?es"
  let ?M = "\<lambda>e. mean (map total (ratings_of e ?rs))"
  have out: "api_leaderboard d = Inr ?out"
    using assms by (rule api_leaderboard_eq)
  have names: "map name ?out = map (\<lambda>e. ENTRANTS ! nat e) ?es"
    by (simp add: expected_entry_def comp_def)
  have ms: "mset ?es = mset (remdups (sort (map entrant_index ?rs)))"
    by (rule leaderboard_query_indices)
  have dist: "distinct ?es"
    using mset_eq_imp_distinct_iff [OF ms] by simp
  have set_es: "set ?es = entrant_index ` set ?rs"
    using mset_eq_setD [OF ms] by simp
  have range: "0 \<le> e \<and> e < int (length ENTRANTS)" if "e \<in> set ?es" for e
    using that assms unfolding set_es by (auto simp: entrants_in_range_def list_all_iff)
  have inj: "inj_on (\<lambda>e. ENTRANTS ! nat e) (set ?es)"
    by (rule inj_onI) (use range nth_ENTRANTS_inj in blast)
  have "distinct (map (\<lambda>e. ENTRANTS ! nat e) es)" if "distinct es" and "inj_on (\<lambda>e. ENTRANTS ! nat e) (set es)"
    for es :: "int list" using that by (simp add: distinct_map)
  from this [OF dist inj] have dist_names: "distinct (map name ?out)"
    unfolding names .
  have votes: "\<forall>x \<in> set ?out. 0 < votes x"
  proof
    fix x assume "x \<in> set ?out"
    then obtain e where e: "e \<in> set ?es" and x: "x = expected_entry ?rs e" by auto
    from e have "ratings_of e ?rs \<noteq> []" unfolding set_es by (rule ratings_of_nonempty)
    then show "0 < votes x" by (simp add: x expected_entry_def)
  qed
  have iff: "ENTRANTS ! nat e \<in> set (map name ?out) \<longleftrightarrow> ratings_of e ?rs \<noteq> []"
    if e: "0 \<le> e \<and> e < int (length ENTRANTS)" for e
  proof
    assume "ENTRANTS ! nat e \<in> set (map name ?out)"
    then obtain e' where e': "e' \<in> set ?es" and eq: "ENTRANTS ! nat e = ENTRANTS ! nat e'"
      unfolding names by auto
    from range [OF e'] e eq have "e = e'" using nth_ENTRANTS_inj by blast
    with e' show "ratings_of e ?rs \<noteq> []"
      unfolding set_es by (simp add: ratings_of_nonempty)
  next
    assume "ratings_of e ?rs \<noteq> []"
    then have "e \<in> set ?es"
      unfolding set_es by (auto simp: ratings_of_def filter_empty_conv)
    then show "ENTRANTS ! nat e \<in> set (map name ?out)"
      unfolding names by auto
  qed
  have tot: "agg_avg_total a = Some (?M (agg_entrant_index a))" if "a \<in> set ?aggs" for a
    by (subst conjunct2 [OF leaderboard_query_elem [OF that]]) simp
  have "sorted_wrt (\<lambda>a b. agg_avg_total b \<le> agg_avg_total a) ?aggs"
    unfolding leaderboard_query_def by (rule sorted_order_by_desc)
  then have s1: "sorted_wrt (\<lambda>a b. ?M (agg_entrant_index b) \<le> ?M (agg_entrant_index a)) ?aggs"
    by (rule sorted_wrt_mono_rel [rotated]) (simp add: tot)
  then have sorted_es: "sorted_wrt (\<lambda>a b. ?M b \<le> ?M a) ?es"
    by (simp add: sorted_wrt_map)
  have "sorted_wrt (\<lambda>a b. py_round2 (to_double (?M b)) \<le> py_round2 (to_double (?M a))) ?es"
    using sorted_es
    by (rule sorted_wrt_mono_rel [rotated]) (simp add: py_round2_mono to_double_mono)
  then have sorted_out: "sorted_wrt (\<lambda>x y. avg_total y \<le> avg_total x) ?out"
    by (simp add: sorted_wrt_map expected_entry_def)
  from out names dist set_es dist_names votes iff sorted_es sorted_out
  show ?thesis by blast
qed

theorem leaderboard_entries_witness:
  "entrants_in_range (rows sample_db) \<and>
   (\<exists>out. api_leaderboard sample_db = Inr out \<and>
          map name out = [''Lindsay'', ''Javier''] \<and> map votes out = [2, 3] \<and>
          map avg_total out = [29 / 2, to_double (1267 / 100)])"
proof -
  have h: "entrants_in_range (rows sample_db)"
    by (simp add: entrants_in_range_def sample_db_def ENTRANTS_def)
  have ev: "api_leaderboard sample_db =
      Inr [\<lparr>name = ''Lindsay'', votes = 2, avg_taste = 9 / 2,
         avg_presentation = 5, avg_easy = 5, avg_total = 29 / 2\<rparr>,
      \<lparr>name = ''Javier'', votes = 3, avg_taste = to_double (467 / 100),
         avg_presentation = to_double (433 / 100), avg_easy = to_double (367 / 100),
         avg_total = to_double (1267 / 100)\<rparr>]"
    by code_simp
  from leaderboard_entries [OF h] obtain out where "api_leaderboard sample_db = Inr out"
    by blast
  with ev h show ?thesis by simp
qed

text \<open>
  C4, as the specification words it, fails on \<open>tie_db\<close>: the mean taste of the forty
  ratings is 1.075, which rounded to two decimal places is 1.08, and the leaderboard shows
  1.07. \<open>AVG\<close> returns the double nearest to 1.075, which lies below it, and \<open>round\<close>
  rounds that double.
\<close>

theorem exact_mean_rounding_counterexample:
  "mean (map taste (ratings_of 0 (rows tie_db))) = 43 / 40 \<and>
   round_to_hundredth (43 / 40) = 27 / 25 \<and>
   api_leaderboard tie_db =
     Inr [\<lparr>name = ''Javier'', votes = 40, avg_taste = to_double (107 / 100),
           avg_presentation = 3, avg_easy = 3, avg_total = to_double (177 / 25)\<rparr>] \<and>
   to_double (107 / 100) \<noteq> to_double (27 / 25) \<and>
   to_double (107 / 100) \<noteq> 27 / 25"
  by code_simp

text \<open>
  C4, amended. On a table whose entrant indices are all valid, an entrant with a stored
  rating has a leaderboard entry under its name that counts the entrant's ratings. Each
  of its four averages is the mean in double precision (of the score over those ratings,
  of \<open>taste + presentation + easy\<close> for \<open>avg_total\<close>) rounded to two decimal places, as a
  double. The rounding takes the nearest hundredth, the even one of two equally near, and
  the mean in double precision differs from the arithmetic mean by at most \<open>2^-53\<close> of it.
\<close>

theorem leaderboard_averages:
  assumes "entrants_in_range (rows d)" and "ratings_of e (rows d) \<noteq> []"
  shows "\<exists>out x.
           api_leaderboard d = Inr out \<and> x \<in> set out \<and>
           name x = ENTRANTS ! nat e \<and>
           votes x = length (ratings_of e (rows d)) \<and>
           avg_taste x =
             to_double (round_to_hundredth (float_mean (map taste (ratings_of e (rows d))))) \<and>
           avg_presentation x =
             to_double (round_to_hundredth
               (float_mean (map presentation (ratings_of e (rows d))))) \<and>
           avg_easy x =
             to_double (round_to_hundredth (float_mean (map easy (ratings_of e (rows d))))) \<and>
           avg_total x =
             to_double (round_to_hundredth
               (float_mean (map (\<lambda>r. taste r + presentation r + easy r)
                  (ratings_of e (rows d))))) \<and>
           (\<forall>y. nearest_hundredth y (round_to_hundredth y)) \<and>
           (\<forall>m. \<bar>to_double m - m\<bar> \<le> \<bar>m\<bar> / 2 ^ 53)"
proof -
  let ?es = "map agg_entrant_index (leaderboard_query (rows d))"
  let ?x = "expected_entry (rows d) e"
  have out: "api_leaderboard d = Inr (map (expected_entry (rows d)) ?es)"
    using assms(1) by (rule api_leaderboard_eq)
  have "set ?es = entrant_index ` set (rows d)"
    using mset_eq_setD [OF leaderboard_query_indices [of "rows d"]] by simp
  moreover have "e \<in> entrant_index ` set (rows d)"
    using assms(2) by (auto simp: ratings_of_def filter_empty_conv)
  ultimately have "e \<in> set ?es" by (simp only:)
  then have "?x \<in> expected_entry (rows d) ` set ?es" by (rule imageI)
  then have mem: "?x \<in> set (map (expected_entry (rows d)) ?es)" by (simp only: set_map)
  have tot: "total = (\<lambda>r. taste r + presentation r + easy r)"
    by (rule ext) (simp add: total_def)
  have fields: "name ?x = ENTRANTS ! nat e \<and>
           votes ?x = length (ratings_of e (rows d)) \<and>
           avg_taste ?x =
             to_double (round_to_hundredth (float_mean (map taste (ratings_of e (rows d))))) \<and>
           avg_presentation ?x =
             to_double (round_to_hundredth
               (float_mean (map presentation (ratings_of e (rows d))))) \<and>
           avg_easy ?x =
             to_double (round_to_hundredth (float_mean (map easy (ratings_of e (rows d))))) \<and>
           avg_total ?x =
             to_double (round_to_hundredth
               (float_mean (map (\<lambda>r. taste r + presentation r + easy r)
                  (ratings_of e (rows d)))))"
    by (simp add: expected_entry_def py_round2_def float_mean_def tot)
  from out mem fields round_to_hundredth_nearest to_double_error show ?thesis by blast
qed

theorem leaderboard_averages_witness:
  "entrants_in_range (rows sample_db) \<and> ratings_of 0 (rows sample_db) \<noteq> [] \<and>
   mean (map taste (ratings_of 0 (rows sample_db))) = 14 / 3 \<and>
   round_to_hundredth (float_mean (map taste (ratings_of 0 (rows sample_db)))) = 467 / 100 \<and>
   (\<exists>out x. api_leaderboard sample_db = Inr out \<and> x \<in> set out \<and> name x = ''Javier'' \<and>
           avg_taste x = to_double (467 / 100))"
proof -
  have h: "entrants_in_range (rows sample_db)"
    by (simp add: entrants_in_range_def sample_db_def ENTRANTS_def)
  have r: "ratings_of 0 (rows sample_db) \<noteq> []"
    by (simp add: ratings_of_def sample_db_def)
  have m: "mean (map taste (ratings_of 0 (rows sample_db))) = 14 / 3"
    by (simp add: mean_def ratings_of_def sample_db_def)
  have f: "round_to_hundredth (float_mean (map taste (ratings_of 0 (rows sample_db)))) = 467 / 100"
    by code_simp
  from leaderboard_averages [OF h r] obtain out x where
    "api_leaderboard sample_db = Inr out" and "x \<in> set out" and "name x = ENTRANTS ! nat 0"
    and "avg_taste x =
       to_double (round_to_hundredth (float_mean (map taste (ratings_of 0 (rows sample_db)))))"
    by blast
  then have "api_leaderboard sample_db = Inr out \<and> x \<in> set out \<and> name x = ''Javier'' \<and>
      avg_taste x = to_double (467 / 100)"
    unfolding f by (simp add: ENTRANTS_def)
  with h r m f show ?thesis by blast
qed

section \<open>The own-rating lookup\<close>

lemma find_conflicts_None:
  "find (conflicts e dev) rs = None \<longleftrightarrow> (\<forall>r \<in> set rs. \<not> conflicts e dev r)"
  by (auto simp: find_None_iff)

lemma str_nat_times_10: "0 < n \<Longrightarrow> str_nat (10 * n) = str_nat n @ ''0''"
  by (subst str_nat.simps) (simp add: digit_char_def)

lemma str_nat_power_10: "str_nat (10 ^ k) = CHR ''1'' # replicate k (CHR ''0'')"
proof (induction k)
  case 0
  show ?case by (simp add: str_nat.simps digit_char_def)
next
  case (Suc k)
  have "str_nat (10 ^ Suc k) = str_nat (10 ^ k) @ ''0''"
    using str_nat_times_10 [of "10 ^ k"] by simp
  then show ?case by (simp add: Suc replicate_append_same)
qed

lemma py_str_power_10: "py_str (10 ^ k) = CHR ''1'' # replicate k (CHR ''0'')"
proof -
  have n: "nat (10 ^ k) = 10 ^ k" by (simp add: nat_power_eq)
  have "\<not> (10 ^ k :: int) < 0" by simp
  then have "py_str (10 ^ k) = str_nat (nat (10 ^ k))" by (simp only: py_str_def if_False)
  then show ?thesis by (simp only: n str_nat_power_10)
qed

lemma py_int_of_str_too_long:
  assumes "int_max_str_digits \<le> k"
  shows "py_int_of_str (CHR ''1'' # replicate k (CHR ''0'')) = None"
proof -
  let ?s = "CHR ''1'' # replicate k (CHR ''0'')"
  have "int_strip ?s = ?s"
    by (rule int_strip_ends) (simp_all add: int_isspace_def)
  moreover have "length (filter is_digit ?s) = Suc k"
    by (simp add: is_digit_def)
  then have "parse_nat ?s = None"
    using assms by (intro parse_nat_too_long) simp
  ultimately show ?thesis by (simp add: py_int_of_str_def)
qed

text \<open>
  C6, as the specification words it, fails for an integer of 4301 digits: the parameter is
  the decimal text of \<open>10^4300\<close>, \<open>int\<close> refuses a text of more than
  \<open>int_max_str_digits\<close> digits, and the answer is the error.
\<close>

theorem long_integer_counterexample:
  "py_str (10 ^ 4300) = CHR ''1'' # replicate 4300 (CHR ''0'') \<and>
   api_my_rating [''entrant_index'' \<mapsto> CHR ''1'' # replicate 4300 (CHR ''0'')] Map.empty init_db
     = Error400 Bad_entrant_index"
proof -
  have "int_max_str_digits \<le> 4300" by (simp add: int_max_str_digits_def)
  then have "py_int_of_str (CHR ''1'' # replicate 4300 (CHR ''0'')) = None"
    by (rule py_int_of_str_too_long)
  then have "api_my_rating [''entrant_index'' \<mapsto> CHR ''1'' # replicate 4300 (CHR ''0'')] Map.empty init_db
     = Error400 Bad_entrant_index"
    unfolding api_my_rating_def by (simp only: fun_upd_same option.case)
  with py_str_power_10 [of 4300] show ?thesis by (rule conjI)
qed

text \<open>
  C6, amended. When the \<open>entrant_index\<close> parameter (\<open>-1\<close> if absent) is a text that \<open>int\<close>
  converts, the answer is a success: it carries no rating exactly when the index is out of
  range or the device has no row for the entrant, and otherwise the scores and judge of a
  row of that entrant and device. The decimal text of every integer of at most
  \<open>int_max_str_digits\<close> digits converts. An error is the answer only to a parameter that
  is present and that \<open>int\<close> refuses.
\<close>

theorem own_rating_lookup:
  "(\<forall>e. py_int_of_str (case args ''entrant_index'' of None \<Rightarrow> ''-1'' | Some s \<Rightarrow> s) = Some e \<longrightarrow>
      (\<exists>rt. api_my_rating args cookies d = Ok200 rt \<and>
         (case rt of
            None \<Rightarrow> e < 0 \<or> int (length ENTRANTS) \<le> e \<or>
                    (\<forall>r \<in> set (rows d). \<not> conflicts e (device_id_from_request cookies) r)
          | Some (t, p, z, j) \<Rightarrow>
              0 \<le> e \<and> e < int (length ENTRANTS) \<and>
              (\<exists>r \<in> set (rows d). conflicts e (device_id_from_request cookies) r \<and>
                 taste r = t \<and> presentation r = p \<and> easy r = z \<and> judge r = j)))) \<and>
   (\<forall>n. length (str_nat (nat \<bar>n\<bar>)) \<le> int_max_str_digits \<and>
        args ''entrant_index'' = Some (py_str n) \<longrightarrow>
        ok (api_my_rating args cookies d)) \<and>
   (args ''entrant_index'' = None \<longrightarrow> api_my_rating args cookies d = Ok200 None) \<and>
   (\<not> ok (api_my_rating args cookies d) \<longrightarrow>
      api_my_rating args cookies d = Error400 Bad_entrant_index \<and>
      (\<exists>s. args ''entrant_index'' = Some s \<and> py_int_of_str s = None))"
proof -
  let ?s = "case args ''entrant_index'' of None \<Rightarrow> ''-1'' | Some s \<Rightarrow> s"
  let ?dev = "device_id_from_request cookies"
  have minus1: "py_int_of_str ''-1'' = Some (- 1)"
    by (simp add: request_defs)
  have 1: "\<exists>rt. api_my_rating args cookies d = Ok200 rt \<and>
         (case rt of
            None \<Rightarrow> e < 0 \<or> int (length ENTRANTS) \<le> e \<or>
                    (\<forall>r \<in> set (rows d). \<not> conflicts e ?dev r)
          | Some (t, p, z, j) \<Rightarrow>
              0 \<le> e \<and> e < int (length ENTRANTS) \<and>
              (\<exists>r \<in> set (rows d). conflicts e ?dev r \<and>
                 taste r = t \<and> presentation r = p \<and> easy r = z \<and> judge r = j))"
    if e: "py_int_of_str ?s = Some e" for e
  proof (cases "0 \<le> e \<and> e < int (length ENTRANTS)")
    case False
    then show ?thesis using e by (auto simp: api_my_rating_def)
  next
    case True
    show ?thesis
    proof (cases "find (conflicts e ?dev) (rows d)")
      case None
      then show ?thesis using e True
        by (simp add: api_my_rating_def find_conflicts_None [symmetric])
    next
      case (Some r)
      then have "r \<in> set (rows d)" and "conflicts e ?dev r"
        by (auto simp: find_Some_iff)
      then show ?thesis using e True Some
        by (auto simp: api_my_rating_def)
    qed
  qed
  have 2: "ok (api_my_rating args cookies d)"
    if "length (str_nat (nat \<bar>n\<bar>)) \<le> int_max_str_digits \<and>
        args ''entrant_index'' = Some (py_str n)" for n
    using that by (simp add: api_my_rating_def py_int_of_str_py_str split: option.splits)
  have 3: "api_my_rating args cookies d = Ok200 None" if "args ''entrant_index'' = None"
    using that minus1 by (simp add: api_my_rating_def)
  have 4: "api_my_rating args cookies d = Error400 Bad_entrant_index \<and>
      (\<exists>s. args ''entrant_index'' = Some s \<and> py_int_of_str s = None)"
    if "\<not> ok (api_my_rating args cookies d)"
  proof (cases "py_int_of_str ?s")
    case None
    then have "args ''entrant_index'' \<noteq> None" using minus1 by (auto split: option.splits)
    then show ?thesis using None by (auto simp: api_my_rating_def)
  next
    case (Some e)
    from 1 [OF this] that show ?thesis by auto
  qed
  from 1 2 3 4 show ?thesis by blast
qed

theorem own_rating_lookup_witness:
  "py_int_of_str ''1'' = Some 1 \<and>
   api_my_rating [''entrant_index'' \<mapsto> ''1''] [''device_id'' \<mapsto> ''d-2''] sample_db
     = Ok200 (Some (4, 5, 5, Some ''Bea'')) \<and>
   api_my_rating [''entrant_index'' \<mapsto> ''1''] [''device_id'' \<mapsto> ''d-3''] sample_db = Ok200 None \<and>
   api_my_rating [''entrant_index'' \<mapsto> ''99''] [''device_id'' \<mapsto> ''d-2''] sample_db = Ok200 None \<and>
   api_my_rating [''entrant_index'' \<mapsto> ''one''] [''device_id'' \<mapsto> ''d-2''] sample_db
     = Error400 Bad_entrant_index \<and>
   length (str_nat (nat \<bar>7\<bar>)) \<le> int_max_str_digits \<and>
   ok (api_my_rating [''entrant_index'' \<mapsto> py_str 7] [''device_id'' \<mapsto> ''d-2''] sample_db)"
proof -
  let ?c = "[''device_id'' \<mapsto> ''d-2'']"
  have i: "py_int_of_str ''1'' = Some 1"
    by (simp add: request_defs)
  have a: "api_my_rating [''entrant_index'' \<mapsto> ''1''] ?c sample_db
     = Ok200 (Some (4, 5, 5, Some ''Bea''))"
    by (simp add: api_my_rating_def sample_db_def request_defs)
  have b: "api_my_rating [''entrant_index'' \<mapsto> ''1''] [''device_id'' \<mapsto> ''d-3''] sample_db = Ok200 None"
    by (simp add: api_my_rating_def sample_db_def request_defs)
  have c: "api_my_rating [''entrant_index'' \<mapsto> ''99''] ?c sample_db = Ok200 None"
    by (simp add: api_my_rating_def sample_db_def request_defs)
  have "\<not> ok (api_my_rating [''entrant_index'' \<mapsto> ''one''] ?c sample_db)"
    by (simp add: api_my_rating_def sample_db_def request_defs)
  with own_rating_lookup [of "[''entrant_index'' \<mapsto> ''one'']" ?c sample_db]
  have d: "api_my_rating [''entrant_index'' \<mapsto> ''one''] ?c sample_db = Error400 Bad_entrant_index"
    by blast
  have l: "length (str_nat (nat \<bar>7\<bar>)) \<le> int_max_str_digits"
    by (simp add: str_nat.simps int_max_str_digits_def)
  have "[''entrant_index'' \<mapsto> py_str 7] ''entrant_index'' = Some (py_str 7)" by simp
  with own_rating_lookup [of "[''entrant_index'' \<mapsto> py_str 7]" ?c sample_db] l
  have e: "ok (api_my_rating [''entrant_index'' \<mapsto> py_str 7] ?c sample_db)"
    by blast
  from i a b c d l e show ?thesis by blast
qed

section \<open>Invariants that every request keeps\<close>

text \<open>
  The two conditions that the statements about the leaderboard, the export, the admin page
  and the repeated submission put on the table hold of the empty table, and \<open>api_rate\<close>,
  the only operation that writes, keeps them.
\<close>

lemma upsert_entrants_in_range:
  assumes "entrants_in_range (rows d)" and "0 \<le> e" and "e < int (length ENTRANTS)"
  shows "entrants_in_range (rows (upsert d now e t p z j dev))"
  using assms unfolding upsert_rows entrants_in_range_def
  by (auto simp: list_all_iff)

lemma api_rate_invariants:
  assumes "entrants_in_range (rows d)" and "sql_unique (rows d)"
  shows "entrants_in_range (rows (snd (api_rate cookies body now d))) \<and>
         sql_unique (rows (snd (api_rate cookies body now d)))"
proof (cases "fst (api_rate cookies body now d) = Ok200 ()")
  case False
  then have "snd (api_rate cookies body now d) = d" by (rule api_rate_failure_keeps_db)
  with assms show ?thesis by simp
next
  case True
  then obtain e t p z j where e: "0 \<le> e" "e < int (length ENTRANTS)"
    and d': "snd (api_rate cookies body now d) = upsert d now e t p z j (device_id_from_request cookies)"
    by (auto simp: api_rate_def split: sum.splits prod.splits if_splits)
  show ?thesis unfolding d'
    using upsert_entrants_in_range [OF assms(1) e] upsert_sql_unique [OF assms(2)] by blast
qed

lemma init_db_invariants: "entrants_in_range (rows init_db) \<and> sql_unique (rows init_db)"
  by (simp add: init_db_def entrants_in_range_def sql_unique_def)

section \<open>The export\<close>

lemma csv_header_text:
  "csv_header = ''id,entrant_name,taste,presentation,easy,judge,device_id,created_at'' @ [CHR 0x0A]"
  by (simp add: csv_header_def)

lemma csv_fields_in_range:
  assumes "0 \<le> entrant_index r" and "entrant_index r < int (length ENTRANTS)"
  shows "csv_fields r =
     Inr [py_str (row_id r), csv_quoted (ENTRANTS ! nat (entrant_index r)),
          py_str (taste r), py_str (presentation r), py_str (easy r),
          csv_quoted (or_empty (judge r)),
          [CHR 0x22] @ or_empty (device_id r) @ [CHR 0x22],
          created_at r]"
  by (simp add: csv_fields_def py_getitem_in_range [OF assms] raising_def csv_quoted_def)

lemma csv_line_in_range:
  assumes "0 \<le> entrant_index r" and "entrant_index r < int (length ENTRANTS)"
  shows "csv_line r = Inr (data_row r)"
  by (simp add: csv_line_def csv_fields_in_range [OF assms] raising_def data_row_def)

lemma generate_rows_in_range:
  "entrants_in_range rs \<Longrightarrow> generate_rows rs = (map data_row rs, None)"
proof (induction rs)
  case Nil
  then show ?case by simp
next
  case (Cons r rs)
  then have "generate_rows rs = (map data_row rs, None)"
    by (simp add: entrants_in_range_def)
  moreover from Cons.prems have "csv_line r = Inr (data_row r)"
    by (intro csv_line_in_range) (simp_all add: entrants_in_range_def)
  ultimately show ?case by simp
qed

lemma generate_header: "\<exists>ls. fst (generate rs) = csv_header # ls"
  by (simp add: generate_def split: prod.splits)

lemma entrants_in_range_sort:
  "entrants_in_range (sort_key f rs) = entrants_in_range rs"
  by (simp add: entrants_in_range_def list_all_iff)

text \<open>
  C8. The export always starts with the header line, which names the eight columns. On a
  table whose entrant indices are all valid the generator ends without an exception, and
  after the header it yields one line for each stored rating, the ratings taken in
  ascending order of \<open>created_at\<close>; so an empty table gives the header alone. The line of
  a rating is \<open>data_row\<close>: its identifier, the name of its entrant, its three scores, its
  judge, its device identifier and its creation timestamp, separated by commas.
\<close>

theorem export_csv_rows:
  "(\<exists>ls. fst (export_csv d) = csv_header # ls) \<and>
   csv_header = ''id,entrant_name,taste,presentation,easy,judge,device_id,created_at'' @ [CHR 0x0A] \<and>
   (entrants_in_range (rows d) \<longrightarrow>
      (\<exists>rs. mset rs = mset (rows d) \<and> sorted (map created_at rs) \<and>
         length rs = length (rows d) \<and>
         export_csv d = (csv_header # map data_row rs, None)))"
proof -
  let ?rs = "sort_key created_at (rows d)"
  have 1: "\<exists>ls. fst (export_csv d) = csv_header # ls"
    unfolding export_csv_def by (rule generate_header)
  have 3: "\<exists>rs. mset rs = mset (rows d) \<and> sorted (map created_at rs) \<and>
         length rs = length (rows d) \<and>
         export_csv d = (csv_header # map data_row rs, None)"
    if "entrants_in_range (rows d)"
  proof -
    from that have "entrants_in_range ?rs" by (simp only: entrants_in_range_sort)
    then have "generate_rows ?rs = (map data_row ?rs, None)"
      by (rule generate_rows_in_range)
    then have ex: "export_csv d = (csv_header # map data_row ?rs, None)"
      by (simp add: export_csv_def generate_def)
    have "mset ?rs = mset (rows d)" by simp
    moreover have "sorted (map created_at ?rs)" by (rule sorted_sort_key)
    moreover have "length ?rs = length (rows d)" by simp
    ultimately show ?thesis using ex by blast
  qed
  from 1 csv_header_text 3 show ?thesis by blast
qed

theorem export_csv_rows_witness:
  "entrants_in_range (rows sample_db) \<and> entrants_in_range (rows init_db) \<and>
   export_csv init_db = ([csv_header], None) \<and>
   (\<exists>rs. mset rs = mset (rows sample_db) \<and>
      export_csv sample_db = (csv_header # map data_row rs, None)) \<and>
   export_csv sample_db = (csv_header # map data_row (rows sample_db), None) \<and>
   map data_row (rows sample_db) =
     [''1,'' @ [CHR 0x22] @ ''Javier'' @ [CHR 0x22] @ '',5,4,3,'' @ [CHR 0x22] @ ''Ann'' @
        [CHR 0x22] @ '','' @ [CHR 0x22] @ ''d-1'' @ [CHR 0x22] @ '',2025-02-09 18:00:00'' @ [CHR 0x0A],
      ''2,'' @ [CHR 0x22] @ ''Lindsay'' @ [CHR 0x22] @ '',5,5,5,'' @ [CHR 0x22, CHR 0x22] @
        '','' @ [CHR 0x22] @ ''d-1'' @ [CHR 0x22] @ '',2025-02-09 18:01:00'' @ [CHR 0x0A],
      ''3,'' @ [CHR 0x22] @ ''Javier'' @ [CHR 0x22] @ '',4,4,4,'' @ [CHR 0x22, CHR 0x22] @
        '','' @ [CHR 0x22] @ ''d-2'' @ [CHR 0x22] @ '',2025-02-09 18:02:00'' @ [CHR 0x0A],
      ''4,'' @ [CHR 0x22] @ ''Lindsay'' @ [CHR 0x22] @ '',4,5,5,'' @ [CHR 0x22] @ ''Bea'' @
        [CHR 0x22] @ '','' @ [CHR 0x22] @ ''d-2'' @ [CHR 0x22] @ '',2025-02-09 18:03:00'' @ [CHR 0x0A],
      ''5,'' @ [CHR 0x22] @ ''Javier'' @ [CHR 0x22] @ '',5,5,4,'' @ [CHR 0x22, CHR 0x22] @
        '','' @ [CHR 0x22] @ ''d-3'' @ [CHR 0x22] @ '',2025-02-09 18:04:00'' @ [CHR 0x0A]]"
proof -
  have h: "entrants_in_range (rows sample_db)"
    by (simp add: entrants_in_range_def sample_db_def ENTRANTS_def)
  have h0: "entrants_in_range (rows init_db)"
    by (simp add: entrants_in_range_def init_db_def)
  have l0: "rows init_db = []" by (simp add: init_db_def)
  from export_csv_rows [of sample_db] h
  have a: "\<exists>rs. mset rs = mset (rows sample_db) \<and>
      export_csv sample_db = (csv_header # map data_row rs, None)"
    by blast
  from export_csv_rows [of init_db] h0 l0
  have b: "export_csv init_db = ([csv_header], None)"
    by auto
  have c: "export_csv sample_db = (csv_header # map data_row (rows sample_db), None)"
    by code_simp
  have d: "map data_row (rows sample_db) =
     [''1,'' @ [CHR 0x22] @ ''Javier'' @ [CHR 0x22] @ '',5,4,3,'' @ [CHR 0x22] @ ''Ann'' @
        [CHR 0x22] @ '','' @ [CHR 0x22] @ ''d-1'' @ [CHR 0x22] @ '',2025-02-09 18:00:00'' @ [CHR 0x0A],
      ''2,'' @ [CHR 0x22] @ ''Lindsay'' @ [CHR 0x22] @ '',5,5,5,'' @ [CHR 0x22, CHR 0x22] @
        '','' @ [CHR 0x22] @ ''d-1'' @ [CHR 0x22] @ '',2025-02-09 18:01:00'' @ [CHR 0x0A],
      ''3,'' @ [CHR 0x22] @ ''Javier'' @ [CHR 0x22] @ '',4,4,4,'' @ [CHR 0x22, CHR 0x22] @
        '','' @ [CHR 0x22] @ ''d-2'' @ [CHR 0x22] @ '',2025-02-09 18:02:00'' @ [CHR 0x0A],
      ''4,'' @ [CHR 0x22] @ ''Lindsay'' @ [CHR 0x22] @ '',4,5,5,'' @ [CHR 0x22] @ ''Bea'' @
        [CHR 0x22] @ '','' @ [CHR 0x22] @ ''d-2'' @ [CHR 0x22] @ '',2025-02-09 18:03:00'' @ [CHR 0x0A],
      ''5,'' @ [CHR 0x22] @ ''Javier'' @ [CHR 0x22] @ '',5,5,4,'' @ [CHR 0x22, CHR 0x22] @
        '','' @ [CHR 0x22] @ ''d-3'' @ [CHR 0x22] @ '',2025-02-09 18:04:00'' @ [CHR 0x0A]]"
    by code_simp
  from h h0 a b c d show ?thesis by blast
qed

text \<open>
  C5, at a row whose judge and device identifier both hold a double quote (the row that
  \<open>api_rate\<close> stores for a request with that cookie): the entrant name and the judge are
  written between quotes with the inner quote doubled, the device identifier between
  quotes with its quote as it is, which is not the quoted form \<open>csv_quoted\<close> of it.
\<close>

theorem export_device_id_not_doubled:
  "csv_fields \<lparr>row_id = 1, entrant_index = 0, taste = 5, presentation = 4, easy = 3,
      judge = Some [CHR ''A'', CHR 0x22, CHR ''n''],
      device_id = Some [CHR ''a'', CHR 0x22, CHR ''b''],
      created_at = ''2025-02-09 18:00:00''\<rparr>
   = Inr [''1'', [CHR 0x22] @ ''Javier'' @ [CHR 0x22], ''5'', ''4'', ''3'',
          [CHR 0x22, CHR ''A'', CHR 0x22, CHR 0x22, CHR ''n'', CHR 0x22],
          [CHR 0x22, CHR ''a'', CHR 0x22, CHR ''b'', CHR 0x22],
          ''2025-02-09 18:00:00''] \<and>
   csv_quoted [CHR ''a'', CHR 0x22, CHR ''b'']
     = [CHR 0x22, CHR ''a'', CHR 0x22, CHR 0x22, CHR ''b'', CHR 0x22] \<and>
   snd (api_rate [''device_id'' \<mapsto> [CHR ''a'', CHR 0x22, CHR ''b'']]
         (Some (JObj [(''entrant_index'', JInt 0), (''taste'', JInt 5), (''presentation'', JInt 4),
                      (''easy'', JInt 3), (''judge'', JStr [CHR ''A'', CHR 0x22, CHR ''n''])]))
         ''2025-02-09 18:00:00'' init_db)
   = \<lparr>rows = [\<lparr>row_id = 1, entrant_index = 0, taste = 5, presentation = 4, easy = 3,
        judge = Some [CHR ''A'', CHR 0x22, CHR ''n''],
        device_id = Some [CHR ''a'', CHR 0x22, CHR ''b''],
        created_at = ''2025-02-09 18:00:00''\<rparr>], next_id = 2\<rparr>"
  by (simp add: csv_fields_def csv_quoted_def replace_quote_def py_getitem_def raising_def
      or_empty_def py_str_def str_nat.simps digit_char_def request_defs)

section \<open>The admin gate\<close>

lemma detailed_of_in_range:
  assumes "0 \<le> entrant_index r" and "entrant_index r < int (length ENTRANTS)"
  shows "\<exists>x. detailed_of r = Inr x"
  by (simp add: detailed_of_def py_getitem_in_range [OF assms] raising_def)

lemma collect_succeeds:
  "(\<And>x. x \<in> set xs \<Longrightarrow> \<exists>y. f x = Inr y) \<Longrightarrow> \<exists>ys. collect f xs = Inr ys"
proof (induction xs)
  case Nil
  then show ?case by simp
next
  case (Cons x xs)
  then obtain y ys where "f x = Inr y" and "collect f xs = Inr ys"
    by (meson list.set_intros)
  then show ?case by (simp add: raising_def)
qed

lemma admin_leaderboard_query_elem:
  assumes "a \<in> set (admin_leaderboard_query rs)"
  shows "fst a \<in> entrant_index ` set rs"
proof -
  from assms have "a \<in># mset (admin_leaderboard_query rs)" by simp
  then have "a \<in> set (map (\<lambda>(k, g). (k, length g, sql_avg (map total g))) (group_by_entrant rs))"
    unfolding admin_leaderboard_query_def mset_order_by_desc by simp
  then show ?thesis unfolding group_by_entrant_eq by auto
qed

lemma admin_results_in_range:
  assumes "entrants_in_range (rows d)" and "sess ''is_admin'' = Some True"
  shows "\<exists>det lb. admin pw0 GET form sess d = (Results_page det lb, sess)"
proof -
  have "\<exists>y. detailed_of r = Inr y"
    if "r \<in> set (sort_key entrant_index (sort_key created_at (rows d)))" for r
    using that assms(1) detailed_of_in_range [of r]
    by (simp add: entrants_in_range_def list_all_iff)
  then obtain det where det:
    "collect detailed_of (sort_key entrant_index (sort_key created_at (rows d))) = Inr det"
    using collect_succeeds by blast
  have "\<exists>y. lb_data_of a = Inr y" if "a \<in> set (admin_leaderboard_query (rows d))" for a
  proof -
    obtain k n avg where a: "a = (k, n, avg)" by (cases a)
    from admin_leaderboard_query_elem [OF that] assms(1) a
    have "0 \<le> k" and "k < int (length ENTRANTS)"
      by (auto simp: entrants_in_range_def list_all_iff)
    then show ?thesis
      by (simp add: a lb_data_of_def py_getitem_in_range raising_def)
  qed
  then obtain lb where lb: "collect lb_data_of (admin_leaderboard_query (rows d)) = Inr lb"
    using collect_succeeds by blast
  show ?thesis using assms(2)
    by (simp add: admin_def det lb raising_def)
qed

lemma session_after_snoc:
  "session_after pw0 sess (qs @ [q]) = snd (handle pw0 (session_after pw0 sess qs) q)"
  by (induction qs arbitrary: sess) simp_all

lemma handle_is_admin:
  "snd (handle pw0 sess (q, d)) ''is_admin'' =
     (if q = Logout then None
      else if correct_password pw0 q then Some True
      else sess ''is_admin'')"
  by (cases q)
    (auto simp: admin_def admin_logout_def correct_password_def Let_def
      split: sum.splits prod.splits)

lemma authenticated_trace:
  assumes "session_after pw0 sess qs ''is_admin'' = Some True"
    and "sess ''is_admin'' \<noteq> Some True"
  shows "\<exists>qs1 q0 d0 qs2. qs = qs1 @ (q0, d0) # qs2 \<and> correct_password pw0 q0 \<and>
           Logout \<notin> fst ` set qs2"
  using assms
proof (induction qs rule: rev_induct)
  case Nil
  then show ?case by simp
next
  case (snoc x qs)
  obtain q d where x: "x = (q, d)" by (cases x)
  show ?case
  proof (cases "correct_password pw0 q")
    case True
    then have "qs @ [x] = qs @ (q, d) # [] \<and> correct_password pw0 q \<and> Logout \<notin> fst ` set []"
      by (simp add: x)
    then show ?thesis by blast
  next
    case False
    from snoc.prems(1) have q: "q \<noteq> Logout"
      and "session_after pw0 sess qs ''is_admin'' = Some True"
      unfolding session_after_snoc x handle_is_admin using False by (auto split: if_splits)
    from snoc.IH [OF this(2) snoc.prems(2)] obtain qs1 q0 d0 qs2
      where "qs = qs1 @ (q0, d0) # qs2" "correct_password pw0 q0" "Logout \<notin> fst ` set qs2"
      by blast
    then have "qs @ [x] = qs1 @ (q0, d0) # (qs2 @ [x]) \<and> correct_password pw0 q0 \<and>
        Logout \<notin> fst ` set (qs2 @ [x])"
      using q by (auto simp: x)
    then show ?thesis by blast
  qed
qed

lemma results_page_needs_session:
  assumes "fst (handle pw0 sess (q, d)) = Results_page det lb"
  shows "sess ''is_admin'' = Some True \<and> (\<exists>form. q = Admin GET form)"
proof (cases q)
  case Logout
  with assms show ?thesis by (simp add: admin_logout_def)
next
  case (Admin m f)
  with assms show ?thesis
    by (cases m) (auto simp: admin_def Let_def split: if_splits)
qed

text \<open>
  C7. In a session that is not authenticated a \<open>GET\<close> and a \<open>POST\<close> with another
  password both render the login page and leave the session as it is. A \<open>POST\<close> whose
  trimmed password is the configured one redirects and sets the flag, after which a \<open>GET\<close>
  renders the results (on a table whose entrant indices are valid). The logout clears the
  flag, and the next \<open>GET\<close> renders the login page. Over any sequence of requests of a
  session that starts unauthenticated, the results page is the answer only to a \<open>GET\<close>
  that follows a \<open>POST\<close> with the correct password with no logout in between.
\<close>

theorem admin_gate:
  "(sess ''is_admin'' \<noteq> Some True \<longrightarrow>
      admin pw0 GET form sess d = (Login_page None, sess)) \<and>
   (py_strip (or_empty (form ''password'')) \<noteq> pw0 \<longrightarrow>
      admin pw0 POST form sess d = (Login_page (Some ''Incorrect password''), sess)) \<and>
   (py_strip (or_empty (form ''password'')) = pw0 \<longrightarrow>
      fst (admin pw0 POST form sess d) = Redirect_to_admin \<and>
      snd (admin pw0 POST form sess d) ''is_admin'' = Some True) \<and>
   (sess ''is_admin'' = Some True \<and> entrants_in_range (rows d) \<longrightarrow>
      (\<exists>det lb. admin pw0 GET form sess d = (Results_page det lb, sess))) \<and>
   fst (admin_logout sess) = Redirect_to_admin \<and>
   snd (admin_logout sess) ''is_admin'' = None \<and>
   admin pw0 GET form (snd (admin_logout sess)) d = (Login_page None, snd (admin_logout sess)) \<and>
   (\<forall>qs q det lb.
      sess ''is_admin'' \<noteq> Some True \<and>
      fst (handle pw0 (session_after pw0 sess qs) (q, d)) = Results_page det lb \<longrightarrow>
      (\<exists>form. q = Admin GET form) \<and>
      (\<exists>qs1 q0 d0 qs2. qs = qs1 @ (q0, d0) # qs2 \<and> correct_password pw0 q0 \<and>
         Logout \<notin> fst ` set qs2))"
proof -
  have 1: "admin pw0 GET form s d = (Login_page None, s)" if "s ''is_admin'' \<noteq> Some True" for s
    using that by (simp add: admin_def)
  have 2: "admin pw0 POST form sess d = (Login_page (Some ''Incorrect password''), sess)"
    if "py_strip (or_empty (form ''password'')) \<noteq> pw0"
    using that by (simp add: admin_def Let_def)
  have 3: "fst (admin pw0 POST form sess d) = Redirect_to_admin \<and>
      snd (admin pw0 POST form sess d) ''is_admin'' = Some True"
    if "py_strip (or_empty (form ''password'')) = pw0"
    using that by (simp add: admin_def Let_def)
  have 4: "\<exists>det lb. admin pw0 GET form sess d = (Results_page det lb, sess)"
    if "sess ''is_admin'' = Some True \<and> entrants_in_range (rows d)"
    using that admin_results_in_range by blast
  have 5: "fst (admin_logout sess) = Redirect_to_admin"
    and 6: "snd (admin_logout sess) ''is_admin'' = None"
    by (simp_all add: admin_logout_def)
  have 7: "admin pw0 GET form (snd (admin_logout sess)) d = (Login_page None, snd (admin_logout sess))"
    by (rule 1) (simp add: 6)
  have 8: "(\<exists>form. q = Admin GET form) \<and>
      (\<exists>qs1 q0 d0 qs2. qs = qs1 @ (q0, d0) # qs2 \<and> correct_password pw0 q0 \<and>
         Logout \<notin> fst ` set qs2)"
    if "sess ''is_admin'' \<noteq> Some True \<and>
      fst (handle pw0 (session_after pw0 sess qs) (q, d)) = Results_page det lb"
    for qs q det lb
  proof -
    from that results_page_needs_session
    have "session_after pw0 sess qs ''is_admin'' = Some True" and "\<exists>form. q = Admin GET form"
      by blast+
    with that authenticated_trace show ?thesis by blast
  qed
  from 1 [of sess] 2 3 4 5 6 7 8 show ?thesis by blast
qed

theorem admin_gate_witness:
  "admin_password Map.empty = ''MASTERCHEF2025'' \<and>
   entrants_in_range (rows sample_db) \<and>
   admin ''MASTERCHEF2025'' GET Map.empty Map.empty sample_db = (Login_page None, Map.empty) \<and>
   admin ''MASTERCHEF2025'' POST [''password'' \<mapsto> ''masterchef''] Map.empty sample_db
     = (Login_page (Some ''Incorrect password''), Map.empty) \<and>
   admin ''MASTERCHEF2025'' POST [''password'' \<mapsto> '' MASTERCHEF2025 ''] Map.empty sample_db
     = (Redirect_to_admin, [''is_admin'' \<mapsto> True]) \<and>
   (\<exists>det lb. admin ''MASTERCHEF2025'' GET Map.empty [''is_admin'' \<mapsto> True] sample_db
      = (Results_page det lb, [''is_admin'' \<mapsto> True])) \<and>
   (\<exists>det lb.
      fst (handle ''MASTERCHEF2025''
            (session_after ''MASTERCHEF2025'' Map.empty
               [(Admin POST [''password'' \<mapsto> ''masterchef''], sample_db),
                (Admin POST [''password'' \<mapsto> '' MASTERCHEF2025 ''], sample_db)])
            (Admin GET Map.empty, sample_db)) = Results_page det lb) \<and>
   admin ''MASTERCHEF2025'' GET Map.empty (snd (admin_logout [''is_admin'' \<mapsto> True])) sample_db
     = (Login_page None, Map.empty)"
proof -
  let ?pw = "''MASTERCHEF2025''"
  have p: "admin_password Map.empty = ?pw"
    by (simp add: admin_password_def default_admin_password_def)
  have h: "entrants_in_range (rows sample_db)"
    by (simp add: entrants_in_range_def sample_db_def ENTRANTS_def)
  have a: "admin ?pw GET Map.empty Map.empty sample_db = (Login_page None, Map.empty)"
    by (simp add: admin_def)
  have b: "admin ?pw POST [''password'' \<mapsto> ''masterchef''] Map.empty sample_db
     = (Login_page (Some ''Incorrect password''), Map.empty)"
    by (simp add: admin_def or_empty_def py_strip_def py_isspace_def)
  have c: "admin ?pw POST [''password'' \<mapsto> '' MASTERCHEF2025 ''] Map.empty sample_db
     = (Redirect_to_admin, [''is_admin'' \<mapsto> True])"
    by (simp add: admin_def or_empty_def py_strip_def py_isspace_def)
  have s: "[''is_admin'' \<mapsto> True] ''is_admin'' = Some True" by simp
  from admin_gate [of "[''is_admin'' \<mapsto> True]" ?pw Map.empty sample_db] s h
  have d: "\<exists>det lb. admin ?pw GET Map.empty [''is_admin'' \<mapsto> True] sample_db
      = (Results_page det lb, [''is_admin'' \<mapsto> True])"
    by blast
  have e: "admin ?pw GET Map.empty (snd (admin_logout [''is_admin'' \<mapsto> True])) sample_db
     = (Login_page None, Map.empty)"
    by (simp add: admin_def admin_logout_def)
  have "session_after ?pw Map.empty
               [(Admin POST [''password'' \<mapsto> ''masterchef''], sample_db),
                (Admin POST [''password'' \<mapsto> '' MASTERCHEF2025 ''], sample_db)]
          = [''is_admin'' \<mapsto> True]"
    by (simp add: b c)
  with d have f: "\<exists>det lb.
      fst (handle ?pw
            (session_after ?pw Map.empty
               [(Admin POST [''password'' \<mapsto> ''masterchef''], sample_db),
                (Admin POST [''password'' \<mapsto> '' MASTERCHEF2025 ''], sample_db)])
            (Admin GET Map.empty, sample_db)) = Results_page det lb"
    by auto
  from p h a b c d e f show ?thesis by blast
qed

end
